theory Spec2Isabelle
  imports Complex_Main "HOL-Library.Word"
begin

unbundle bit_operations_syntax

section \<open>Machine types and constants\<close>

type_synonym byte = "8 word"

text \<open>
  \<^verbatim>\<open>size_t\<close> values are natural numbers; the one place where the source can
  produce \<^verbatim>\<open>SIZE_MAX\<close> (the error return of \<^verbatim>\<open>double_buffer_size\<close>) is
  written out for a 64-bit \<^verbatim>\<open>size_t\<close>.
\<close>

definition SIZE_MAX :: nat where
  "SIZE_MAX = 2 ^ 64 - 1"

definition MIN_BUFSIZE :: nat where
  "MIN_BUFSIZE = 4096"

definition MAX_BUFSIZE :: nat where
  "MAX_BUFSIZE = 176400"

definition VORBIS_BYTES_PER_SAMPLE :: nat where
  "VORBIS_BYTES_PER_SAMPLE = 2"

definition BUFFER_CHUNK_DATA_SIZE :: nat where
  "BUFFER_CHUNK_DATA_SIZE = 1024"

section \<open>Sample conversion (\<^verbatim>\<open>common.c\<close>, \<^verbatim>\<open>audio.c\<close>)\<close>

text \<open>
  \<^verbatim>\<open>rbtk_clamp_i16\<close>: both comparisons are signed comparisons of 16-bit values.
\<close>

definition rbtk_clamp_i16 :: "16 word \<Rightarrow> 16 word \<Rightarrow> 16 word \<Rightarrow> 16 word" where
  "rbtk_clamp_i16 val mn mx =
     (let t = (if val <s mn then mn else val) in if mx <s t then mx else t)"

text \<open>
  A decoded sample is a \<^verbatim>\<open>float\<close>; it is modelled by the real number it denotes.
  The product \<^verbatim>\<open>32768 * sample\<close> is a scaling by a power of two and therefore exact.
  The cast \<^verbatim>\<open>(short)\<close> discards the fractional part (rounding towards zero). For a
  value outside the range of \<^verbatim>\<open>short\<close> ISO C leaves the conversion undefined; the
  model takes what the mainstream targets do (conversion to a 32-bit integer, of which the
  low 16 bits are kept), that is, reduction modulo \<open>2 ^ 16\<close>.
\<close>

definition c_truncate :: "real \<Rightarrow> int" where
  "c_truncate x = (if 0 \<le> x then \<lfloor>x\<rfloor> else \<lceil>x\<rceil>)"

definition short_of_float :: "real \<Rightarrow> 16 word" where
  "short_of_float x = word_of_int (c_truncate x)"

text \<open>
  The macro \<^verbatim>\<open>PCM_FROM_VORBIS_SAMPLE(_sample)\<close> expands to
  \<^verbatim>\<open>rbtk_clamp_i16((short) (32768 * (_sample)), -32768, 32767)\<close>: the cast is applied
  to the product, and the clamp to the result of the cast.
\<close>

definition PCM_FROM_VORBIS_SAMPLE :: "real \<Rightarrow> 16 word" where
  "PCM_FROM_VORBIS_SAMPLE s = rbtk_clamp_i16 (short_of_float (32768 * s)) (- 32768) 32767"

text \<open>
  The two bytes stored for one sample: \<^verbatim>\<open>pcm\<close> is promoted to \<^verbatim>\<open>int\<close> (sign
  extension to 32 bits), masked, shifted and cut down to \<^verbatim>\<open>unsigned char\<close>.
\<close>

definition pcm_low_byte :: "16 word \<Rightarrow> byte" where
  "pcm_low_byte pcm = ucast (drop_bit 0 ((scast pcm :: 32 word) AND 0x00FF))"

definition pcm_high_byte :: "16 word \<Rightarrow> byte" where
  "pcm_high_byte pcm = ucast (drop_bit 8 ((scast pcm :: 32 word) AND 0xFF00))"

text \<open>What the specification describes: scale, then clamp the scaled value.\<close>

definition spec_pcm_of_sample :: "real \<Rightarrow> int" where
  "spec_pcm_of_sample s = max (- 32768) (min 32767 (c_truncate (32768 * s)))"

section \<open>Errors, the heap and the byte source\<close>

datatype RBTK_ERROR_CODE =
  RBTK_ERROR_NONE | RBTK_ERROR_UNSUPPORTED | RBTK_ERROR_OUT_OF_MEMORY | RBTK_ERROR_IO

text \<open>Ways in which a call does not return to its caller: a failed \<^verbatim>\<open>assert\<close>,
  a call of \<^verbatim>\<open>abort\<close>, or an access outside a block.\<close>

datatype fault = AssertionFailure | Abort | MemoryFault

text \<open>
  The part of the process state that the functions below touch.
  \<^item> The heap: the table of live blocks (address to size in bytes), the next address
    \<^verbatim>\<open>malloc\<close> hands out, and the outcomes of the coming \<^verbatim>\<open>malloc\<close> calls
    (\<open>False\<close>: the call returns \<^verbatim>\<open>NULL\<close>; once the list is used up every call
    succeeds).
  \<^item> The build: \<open>NDEBUG\<close> says whether the program was compiled with
    \<^verbatim>\<open>NDEBUG\<close>, which decides what \<^verbatim>\<open>assert\<close> and the macro
    \<^verbatim>\<open>rbtk_signal_error\<close> are.
  \<^item> The error module (\<^verbatim>\<open>error.c\<close>, \<^verbatim>\<open>linux_error.c\<close>): \<open>error_tls\<close> is the
    calling thread's \<^verbatim>\<open>priv_rbtk_error_info\<close> record (\<open>None\<close> while the thread has
    none), \<open>signaled\<close>, \<open>last_error\<close> and \<open>uncaught_error_fun\<close> are its fields
    \<^verbatim>\<open>signaled\<close>, \<^verbatim>\<open>error\<close> and \<^verbatim>\<open>uncaught_error_fun\<close> (the last one:
    whether a callback is installed), and \<open>uncaught_errors\<close> lists the error codes the
    callback has been called with. The callback is the application's own code; what it
    does beyond being called is not part of this model. The module is taken to be
    initialised.
\<close>

record world =
  allocated :: "nat \<rightharpoonup> nat"
  next_block :: nat
  malloc_plan :: "bool list"
  NDEBUG :: bool
  error_tls :: "nat option"
  signaled :: bool
  last_error :: RBTK_ERROR_CODE
  uncaught_error_fun :: bool
  uncaught_errors :: "RBTK_ERROR_CODE list"

definition malloc :: "nat \<Rightarrow> world \<Rightarrow> nat option \<times> world" where
  "malloc sz w =
     (case malloc_plan w of
        False # plan \<Rightarrow> (None, w\<lparr>malloc_plan := plan\<rparr>)
      | _ \<Rightarrow> (Some (next_block w),
              w\<lparr>allocated := (allocated w)(next_block w \<mapsto> sz),
                next_block := next_block w + 1,
                malloc_plan := tl (malloc_plan w)\<rparr>))"

definition free :: "nat option \<Rightarrow> world \<Rightarrow> world" where
  "free p w = (case p of None \<Rightarrow> w | Some a \<Rightarrow> w\<lparr>allocated := (allocated w)(a := None)\<rparr>)"

text \<open>
  \<^verbatim>\<open>get_error_info\<close> with \<^verbatim>\<open>plat_rbtk_get_error_info\<close>: a thread without a record
  gets one from \<^verbatim>\<open>malloc\<close> when \<^verbatim>\<open>allocate_if_missing\<close> is set, with its fields
  cleared; if that allocation fails the process is aborted. The record returned is
  \<open>error_tls\<close> of the resulting state.
\<close>

definition sizeof_priv_rbtk_error_info :: nat where
  "sizeof_priv_rbtk_error_info = 4 + 4 + 4096 + 8"

definition get_error_info :: "bool \<Rightarrow> world \<Rightarrow> fault + world" where
  "get_error_info allocate_if_missing w =
     (case error_tls w of
        Some info \<Rightarrow> Inr w
      | None \<Rightarrow>
          if \<not> allocate_if_missing then Inr w
          else
            (case malloc sizeof_priv_rbtk_error_info w of
               (None, w') \<Rightarrow> Inl Abort
             | (Some info, w') \<Rightarrow>
                 Inr (w'\<lparr>error_tls := Some info, signaled := False,
                          last_error := RBTK_ERROR_NONE, uncaught_error_fun := False\<rparr>)))"

text \<open>
  \<^verbatim>\<open>rbtk_signal_error_rt\<close>: the record is fetched (allocated if missing); an error
  signalled earlier and not yet read is handed to the callback, if there is one; then the
  new error is recorded. The message is left out.
\<close>

definition rbtk_signal_error_rt :: "RBTK_ERROR_CODE \<Rightarrow> world \<Rightarrow> fault + world" where
  "rbtk_signal_error_rt e w =
     (case get_error_info True w of
        Inl f \<Rightarrow> Inl f
      | Inr w1 \<Rightarrow>
          Inr ((if signaled w1 \<and> uncaught_error_fun w1
                then w1\<lparr>uncaught_errors := uncaught_errors w1 @ [last_error w1]\<rparr>
                else w1)\<lparr>signaled := True, last_error := e\<rparr>))"

text \<open>
  The macro \<^verbatim>\<open>rbtk_signal_error\<close>. With \<^verbatim>\<open>NDEBUG\<close> it is
  \<^verbatim>\<open>rbtk_signal_error_rt\<close>. Without, it is \<^verbatim>\<open>rbtk_signal_error_at\<close>, which only
  prints, followed by \<^verbatim>\<open>assert(RBTK_ERROR_NONE)\<close>, which always fails.
\<close>

definition rbtk_signal_error :: "RBTK_ERROR_CODE \<Rightarrow> world \<Rightarrow> fault + world" where
  "rbtk_signal_error e w =
     (if NDEBUG w then rbtk_signal_error_rt e w else Inl AssertionFailure)"

text \<open>
  A byte source (\<^verbatim>\<open>RBTK_IN_STREAM\<close>) is a table of function pointers; only its
  \<^verbatim>\<open>read_bytes\<close> is used here. It is modelled by the bytes it has still to
  deliver and by a list of upper bounds, one for each coming call, which lets a call
  deliver fewer bytes than asked for (once the list is used up a call delivers as much as
  it can). A call that delivers nothing is what the callers take as the end of the source.
\<close>

record RBTK_IN_STREAM =
  pending :: "byte list"
  limits :: "nat list"

definition rbtk_read_bytes :: "RBTK_IN_STREAM \<Rightarrow> nat \<Rightarrow> byte list \<times> RBTK_IN_STREAM" where
  "rbtk_read_bytes inp len =
     (let n = (case limits inp of
                 [] \<Rightarrow> min len (length (pending inp))
               | l # _ \<Rightarrow> min l (min len (length (pending inp))))
      in (take n (pending inp), inp\<lparr>pending := drop n (pending inp), limits := tl (limits inp)\<rparr>))"

text \<open>\<^verbatim>\<open>memcpy(buf + off, bs, length bs)\<close> on the contents of a block.\<close>

definition store_bytes :: "byte list \<Rightarrow> nat \<Rightarrow> byte list \<Rightarrow> byte list" where
  "store_bytes buf off bs = take off buf @ bs @ drop (off + length bs) buf"

text \<open>
  \<^verbatim>\<open>rbtk_read_bytes(in, buf, off, len)\<close> with the destination written out: the bytes
  delivered are stored at \<^verbatim>\<open>buf + off\<close>, and storing past the end of the block is a
  memory fault. The result is the number of bytes read, the new contents and the source.
\<close>

definition rbtk_read_bytes_into ::
  "RBTK_IN_STREAM \<Rightarrow> byte list \<Rightarrow> nat \<Rightarrow> nat \<Rightarrow> fault + (nat \<times> byte list \<times> RBTK_IN_STREAM)" where
  "rbtk_read_bytes_into inp buf off len =
     (case rbtk_read_bytes inp len of
        (bs, inp') \<Rightarrow>
          if off + length bs \<le> length buf
          then Inr (length bs, store_bytes buf off bs, inp')
          else Inl MemoryFault)"

section \<open>Chunked buffering (\<^verbatim>\<open>rbtk_buffer_remaining\<close>, \<^verbatim>\<open>stream.c\<close>)\<close>

text \<open>
  A node of the chunk list: its address on the heap, its \<^verbatim>\<open>len\<close> field and the
  bytes copied into its \<^verbatim>\<open>data\<close> array. The list itself is kept in link order, head
  first; appending at \<^verbatim>\<open>chunks_tail\<close> is appending at the end.
\<close>

record buffer_chunk =
  chunk_at :: nat
  chunk_len :: nat
  chunk_data :: "byte list"

definition sizeof_buffer_chunk :: nat where
  "sizeof_buffer_chunk = 8 + BUFFER_CHUNK_DATA_SIZE + 8"

text \<open>
  The first loop: \<^verbatim>\<open>while (read > 0)\<close>. The argument \<open>rd\<close> holds the bytes the last
  \<^verbatim>\<open>rbtk_read_bytes\<close> put into the stack buffer, \<^verbatim>\<open>read\<close> is their number. The
  result starts with the flag \<^verbatim>\<open>malloc_failure\<close>; the loop does not return when
  its \<^verbatim>\<open>assert\<close> fails or when signalling the error aborts.
\<close>

function collect_chunks ::
  "byte list \<Rightarrow> buffer_chunk list \<Rightarrow> nat \<Rightarrow> RBTK_IN_STREAM \<Rightarrow> world
     \<Rightarrow> fault + (bool \<times> buffer_chunk list \<times> nat \<times> RBTK_IN_STREAM \<times> world)" where
  "collect_chunks rd chunks data_size inp w =
     (if length rd > 0 then
        (if \<not> NDEBUG w \<and> \<not> length rd \<le> BUFFER_CHUNK_DATA_SIZE then Inl AssertionFailure
         else
           (case malloc sizeof_buffer_chunk w of
              (None, w') \<Rightarrow>
                (case rbtk_signal_error RBTK_ERROR_OUT_OF_MEMORY w' of
                   Inl f \<Rightarrow> Inl f
                 | Inr w'' \<Rightarrow> Inr (True, chunks, data_size, inp, w''))
            | (Some a, w') \<Rightarrow>
                (case rbtk_read_bytes inp BUFFER_CHUNK_DATA_SIZE of
                   (rd', inp') \<Rightarrow>
                     collect_chunks rd'
                       (chunks @ [\<lparr>chunk_at = a, chunk_len = length rd, chunk_data = rd\<rparr>])
                       (data_size + length rd) inp' w')))
      else Inr (False, chunks, data_size, inp, w))"
  by pat_completeness auto
termination
proof (relation "measure (\<lambda>(rd, chunks, data_size, inp, w).
                   length (pending inp) + (if rd = [] then 0 else 1))")
  show "wf (measure (\<lambda>(rd, chunks, data_size, inp, w).
                   length (pending inp) + (if rd = [] then 0 else 1)))"
    by simp
next
  fix rd :: "byte list" and chunks :: "buffer_chunk list" and data_size :: nat
    and inp :: RBTK_IN_STREAM and w :: world and x y a rd' inp'
  assume nonempty: "0 < length rd"
    and rd: "(rd', inp') = rbtk_read_bytes inp BUFFER_CHUNK_DATA_SIZE"
  have "length (pending inp') + length rd' = length (pending inp)"
    using rd by (auto simp: rbtk_read_bytes_def Let_def split: list.splits)
  then show "((rd', chunks @ [\<lparr>chunk_at = a, chunk_len = length rd, chunk_data = rd\<rparr>],
               data_size + length rd, inp', y),
              (rd, chunks, data_size, inp, w))
             \<in> measure (\<lambda>(rd, chunks, data_size, inp, w).
                   length (pending inp) + (if rd = [] then 0 else 1))"
    using nonempty by (cases rd') auto
qed

text \<open>The cleanup loop of the failure path: every node is freed, in link order.\<close>

fun free_chunks :: "buffer_chunk list \<Rightarrow> world \<Rightarrow> world" where
  "free_chunks [] w = w"
| "free_chunks (chunk # rest) w = free_chunks rest (free (Some (chunk_at chunk)) w)"

text \<open>
  The final loop: each node's bytes are copied to \<^verbatim>\<open>data_buffer + data_offset\<close> and
  the node is freed.
\<close>

fun copy_chunks ::
  "buffer_chunk list \<Rightarrow> nat \<Rightarrow> byte list \<Rightarrow> world \<Rightarrow> nat \<times> byte list \<times> world" where
  "copy_chunks [] data_offset data_buffer w = (data_offset, data_buffer, w)"
| "copy_chunks (chunk # rest) data_offset data_buffer w =
     copy_chunks rest (data_offset + chunk_len chunk)
       (store_bytes data_buffer data_offset (take (chunk_len chunk) (chunk_data chunk)))
       (free (Some (chunk_at chunk)) w)"

text \<open>
  What a successful call hands back: the address of the buffer, its contents, and the
  value written to \<^verbatim>\<open>*size\<close>. A fresh block is taken to hold zero bytes. The
  \<^verbatim>\<open>assert\<close> on the final offset is checked without \<^verbatim>\<open>NDEBUG\<close> only.
\<close>

record buffered =
  buffer_at :: nat
  buffer_bytes :: "byte list"
  reported_size :: nat

definition rbtk_buffer_remaining ::
  "RBTK_IN_STREAM \<Rightarrow> world \<Rightarrow> fault + (buffered option \<times> RBTK_IN_STREAM \<times> world)" where
  "rbtk_buffer_remaining inp w =
     (case rbtk_read_bytes inp BUFFER_CHUNK_DATA_SIZE of
        (rd, inp1) \<Rightarrow>
          (case collect_chunks rd [] 0 inp1 w of
             Inl f \<Rightarrow> Inl f
           | Inr (malloc_failure, chunks, data_size, inp2, w1) \<Rightarrow>
               if malloc_failure then Inr (None, inp2, free None (free_chunks chunks w1))
               else
                 (case malloc data_size w1 of
                    (None, w2) \<Rightarrow>
                      (case rbtk_signal_error RBTK_ERROR_OUT_OF_MEMORY w2 of
                         Inl f \<Rightarrow> Inl f
                       | Inr w3 \<Rightarrow> Inr (None, inp2, free None (free_chunks chunks w3)))
                  | (Some a, w2) \<Rightarrow>
                      (case copy_chunks chunks 0 (replicate data_size 0) w2 of
                         (data_offset, bytes, w3) \<Rightarrow>
                           if \<not> NDEBUG w3 \<and> data_offset \<noteq> data_size
                           then Inl AssertionFailure
                           else Inr (Some \<lparr>buffer_at = a, buffer_bytes = bytes,
                                            reported_size = data_size\<rparr>, inp2, w3)))))"

text \<open>
  The non-empty blocks a source hands to successive requests for
  \<^verbatim>\<open>BUFFER_CHUNK_DATA_SIZE\<close> bytes, up to its first empty answer.
\<close>

function pulls :: "RBTK_IN_STREAM \<Rightarrow> byte list list" where
  "pulls inp =
     (case rbtk_read_bytes inp BUFFER_CHUNK_DATA_SIZE of
        (rd, inp') \<Rightarrow> if length rd > 0 then rd # pulls inp' else [])"
  by pat_completeness auto
termination
proof (relation "measure (\<lambda>inp. length (pending inp))")
  show "wf (measure (\<lambda>inp. length (pending inp)))" by simp
next
  fix inp :: RBTK_IN_STREAM and x rd inp'
  assume rd: "(rd, inp') = rbtk_read_bytes inp BUFFER_CHUNK_DATA_SIZE" and ne: "0 < length rd"
  have "length (pending inp') + length rd = length (pending inp)"
    using rd by (auto simp: rbtk_read_bytes_def Let_def split: list.splits)
  then show "(inp', inp) \<in> measure (\<lambda>inp. length (pending inp))"
    using ne by (cases rd) auto
qed

definition chunks_for :: "byte list \<Rightarrow> RBTK_IN_STREAM \<Rightarrow> byte list list" where
  "chunks_for rd inp = (if length rd > 0 then rd # pulls inp else [])"

definition wf_world :: "world \<Rightarrow> bool" where
  "wf_world w = (\<forall>a. next_block w \<le> a \<longrightarrow> allocated w a = None)"


text \<open>
  The state after \<open>k\<close> chunk nodes have been allocated from \<open>w\<close>, and, if \<open>failed\<close>,
  one more allocation has been refused.
\<close>

definition chunks_allocated :: "world \<Rightarrow> nat \<Rightarrow> bool \<Rightarrow> world" where
  "chunks_allocated w k failed =
     w\<lparr>allocated :=
         (\<lambda>a. if next_block w \<le> a \<and> a < next_block w + k
              then Some sizeof_buffer_chunk else allocated w a),
       next_block := next_block w + k,
       malloc_plan := drop (k + (if failed then 1 else 0)) (malloc_plan w)\<rparr>"
section \<open>The streaming decoder (\<^verbatim>\<open>audio.c\<close>)\<close>

text \<open>
  The decompressor (\<^verbatim>\<open>stb_vorbis\<close>, a library outside the repository) is a
  parameter of the model: a record of the three entry points the code calls, over an
  arbitrary type \<open>'d\<close> of decoder states.
  \<^item> \<^verbatim>\<open>stb_vorbis_open_pushdata(buf, len, &consumed, &error, NULL)\<close> gets the
    \<^verbatim>\<open>len\<close> bytes at \<^verbatim>\<open>buf\<close> and answers with an error code
    (\<^verbatim>\<open>NULL\<close> returned) or with a decoder and the number of bytes consumed.
  \<^item> \<^verbatim>\<open>stb_vorbis_decode_frame_pushdata(dec, buf, len, NULL, &output, &samples)\<close>
    answers with the new decoder state, the number of bytes used, the value it stores in
    \<^verbatim>\<open>*output\<close> (\<open>None\<close>: the location is left as it was; otherwise one
    array of samples for each channel) and the value it stores in \<^verbatim>\<open>*samples\<close>.
  \<^item> \<^verbatim>\<open>stb_vorbis_get_info\<close> gives the sample rate and the number of channels.
\<close>

datatype vorbis_error = VORBIS_need_more_data | VORBIS_other_error int

record 'd stb_vorbis =
  stb_vorbis_open_pushdata :: "byte list \<Rightarrow> vorbis_error + ('d \<times> nat)"
  stb_vorbis_decode_frame_pushdata ::
    "'d \<Rightarrow> byte list \<Rightarrow> 'd \<times> nat \<times> real list list option \<times> nat"
  stb_vorbis_get_info :: "'d \<Rightarrow> nat \<times> nat"

text \<open>
  \<^verbatim>\<open>rbtk_vorbis_audio_source\<close>. The field \<^verbatim>\<open>in\<close> is called \<open>vin\<close>;
  it holds the state of the borrowed byte source. The pointer \<^verbatim>\<open>buffer\<close> is
  split into the address of the block (\<open>None\<close> for \<^verbatim>\<open>NULL\<close>) and the
  contents of the block, \<open>buffer_mem\<close>.
\<close>

record 'd rbtk_vorbis_audio_source =
  vin :: RBTK_IN_STREAM
  buffer :: "nat option"
  buffer_mem :: "byte list"
  buffer_size :: nat
  buffer_offset :: nat
  decoder :: "'d option"
  header_size :: nat
  expected_offset :: nat
  channels :: nat
  outputs :: "real list list option"
  outputs_index :: nat
  outputs_size :: nat

text \<open>
  \<^verbatim>\<open>double_buffer_size\<close> returns the number of unused bytes of the new block, or
  \<^verbatim>\<open>SIZE_MAX\<close> with the buffer and its size left as they are when \<^verbatim>\<open>malloc\<close>
  fails and the error has been signalled. The model also returns the new pointer, contents
  and size. A fresh block is taken to hold zero bytes. The product is computed on
  \<^verbatim>\<open>size_t\<close> (64 bits). The \<^verbatim>\<open>assert\<close> on the old pointer is checked without
  \<^verbatim>\<open>NDEBUG\<close> only; with it, the copy reads from the null pointer. A copy that reads
  past the old block or writes past the new one is a memory fault.
\<close>

definition double_buffer_size ::
  "nat option \<Rightarrow> byte list \<Rightarrow> nat \<Rightarrow> world
     \<Rightarrow> fault + (nat \<times> nat option \<times> byte list \<times> nat \<times> world)" where
  "double_buffer_size buf mem bufsize w =
     (if \<not> NDEBUG w \<and> buf = None then Inl AssertionFailure
      else
        (let prev_size = bufsize; next_size = (prev_size * 2) mod 2 ^ 64 in
         case malloc next_size w of
           (None, w') \<Rightarrow>
             (case rbtk_signal_error RBTK_ERROR_OUT_OF_MEMORY w' of
                Inl f \<Rightarrow> Inl f
              | Inr w'' \<Rightarrow> Inr (SIZE_MAX, buf, mem, bufsize, w''))
         | (Some a, w') \<Rightarrow>
             if buf = None \<or> length mem < prev_size \<or> next_size < prev_size
             then Inl MemoryFault
             else Inr (next_size - prev_size, Some a,
                       store_bytes (replicate next_size 0) 0 (take prev_size mem), next_size,
                       free buf w')))"

text \<open>
  \<^verbatim>\<open>shift_unconsumed_to_front(buf, &read, consumed)\<close>. The difference
  \<^verbatim>\<open>*read - consumed\<close> is computed on \<^verbatim>\<open>size_t\<close>: with more consumed than
  read it wraps around to a length no block has, and the copy leaves the block.
\<close>

definition shift_unconsumed_to_front ::
  "byte list \<Rightarrow> nat \<Rightarrow> nat \<Rightarrow> fault + (byte list \<times> nat)" where
  "shift_unconsumed_to_front mem rd consumed =
     (if rd < consumed \<or> length mem < rd then Inl MemoryFault
      else let unconsumed = rd - consumed
           in Inr (store_bytes mem 0 (take unconsumed (drop consumed mem)), unconsumed))"

text \<open>
  The local variables of \<^verbatim>\<open>open_vorbis_decoder\<close> that its loop changes, and the two
  ways the loop is left: by \<^verbatim>\<open>return false\<close>, or with a decoder and the number of
  header bytes it consumed.
\<close>

record open_locals =
  l_buf :: "nat option"
  l_buf_mem :: "byte list"
  l_bufsize :: nat
  l_read_offset :: nat
  l_in :: RBTK_IN_STREAM

datatype 'd open_exit =
  Open_failed open_locals world
| Open_done 'd nat open_locals world

text \<open>
  The loop \<^verbatim>\<open>while (!decoder)\<close>. The decoder is handed \<^verbatim>\<open>bufsize\<close> bytes,
  whatever part of them has been read from the source. The variable \<^verbatim>\<open>read\<close> is a
  \<^verbatim>\<open>size_t\<close>, so the test \<^verbatim>\<open>read < 0\<close> is a comparison of natural numbers.
  A run of the loop that never ends has the value \<open>None\<close>.
\<close>

partial_function (option) open_vorbis_decoder_loop ::
  "'d stb_vorbis \<Rightarrow> open_locals \<Rightarrow> world \<Rightarrow> (fault + 'd open_exit) option" where
  "open_vorbis_decoder_loop api L w =
     (case stb_vorbis_open_pushdata api (take (l_bufsize L) (l_buf_mem L)) of
        Inr (d, bytes_consumed) \<Rightarrow> Some (Inr (Open_done d bytes_consumed L w))
      | Inl vorbis_error \<Rightarrow>
          if vorbis_error \<noteq> VORBIS_need_more_data
          then (case rbtk_signal_error RBTK_ERROR_IO w of
                  Inl f \<Rightarrow> Some (Inl f)
                | Inr w' \<Rightarrow> Some (Inr (Open_failed L w')))
          else if l_bufsize L \<ge> MAX_BUFSIZE
          then (case rbtk_signal_error RBTK_ERROR_IO w of
                  Inl f \<Rightarrow> Some (Inl f)
                | Inr w' \<Rightarrow> Some (Inr (Open_failed L w')))
          else
            (case double_buffer_size (l_buf L) (l_buf_mem L) (l_bufsize L) w of
               Inl f \<Rightarrow> Some (Inl f)
             | Inr (unused, b, m, sz, w1) \<Rightarrow>
                 (case rbtk_read_bytes_into (l_in L) m (l_read_offset L) unused of
                    Inl f \<Rightarrow> Some (Inl f)
                  | Inr (rd, m', inp') \<Rightarrow>
                      (let L' = L\<lparr>l_buf := b, l_buf_mem := m', l_bufsize := sz,
                                   l_read_offset := l_read_offset L + rd, l_in := inp'\<rparr>
                       in if rd < 0
                          then (case rbtk_signal_error RBTK_ERROR_IO (free b w1) of
                                  Inl f \<Rightarrow> Some (Inl f)
                                | Inr w' \<Rightarrow> Some (Inr (Open_failed L' w')))
                          else open_vorbis_decoder_loop api L' w1))))"

definition open_vorbis_decoder ::
  "'d stb_vorbis \<Rightarrow> 'd rbtk_vorbis_audio_source \<Rightarrow> world
     \<Rightarrow> (fault + (bool \<times> 'd rbtk_vorbis_audio_source \<times> world)) option" where
  "open_vorbis_decoder api vorbis w =
     (case malloc MIN_BUFSIZE w of
        (None, w1) \<Rightarrow>
          (case rbtk_signal_error RBTK_ERROR_OUT_OF_MEMORY w1 of
             Inl f \<Rightarrow> Some (Inl f)
           | Inr w2 \<Rightarrow> Some (Inr (False, vorbis, w2)))
      | (Some a, w1) \<Rightarrow>
          (case rbtk_read_bytes_into (vin vorbis) (replicate MIN_BUFSIZE 0) 0 MIN_BUFSIZE of
             Inl f \<Rightarrow> Some (Inl f)
           | Inr (rd, mem, inp1) \<Rightarrow>
               (case open_vorbis_decoder_loop api
                       \<lparr>l_buf = Some a, l_buf_mem = mem, l_bufsize = MIN_BUFSIZE,
                        l_read_offset = rd, l_in = inp1\<rparr> w1 of
                  None \<Rightarrow> None
                | Some (Inl f) \<Rightarrow> Some (Inl f)
                | Some (Inr (Open_failed L w2)) \<Rightarrow>
                    Some (Inr (False, vorbis\<lparr>vin := l_in L\<rparr>, w2))
                | Some (Inr (Open_done d bytes_consumed L w2)) \<Rightarrow>
                    (case shift_unconsumed_to_front (l_buf_mem L) (l_read_offset L)
                            bytes_consumed of
                       Inl f \<Rightarrow> Some (Inl f)
                     | Inr (mem', read_offset') \<Rightarrow>
                         Some (Inr (True,
                           vorbis\<lparr>vin := l_in L, buffer := l_buf L, buffer_mem := mem',
                                  buffer_size := l_bufsize L, buffer_offset := read_offset',
                                  decoder := Some d, header_size := bytes_consumed\<rparr>,
                           w2))))))"

text \<open>
  \<^verbatim>\<open>samples[c][s]\<close>. The decoder provides one array for each channel, each as long
  as the number of samples it reported; a read outside them (undefined in C) gives 0 here.
\<close>

definition sample_at :: "real list list \<Rightarrow> nat \<Rightarrow> nat \<Rightarrow> real" where
  "sample_at samples c s =
     (if c < length samples \<and> s < length (samples ! c) then samples ! c ! s else 0)"

text \<open>
  The inner loop of \<^verbatim>\<open>write_vorbis_samples\<close>: for each channel the sample is
  converted and its two bytes are stored at \<^verbatim>\<open>cbuf[off]\<close> and
  \<^verbatim>\<open>cbuf[off + 1]\<close>. The list \<open>cbuf\<close> is the memory the caller has at
  \<^verbatim>\<open>cbuf\<close>; a store past its end (undefined in C) leaves the list as it is. The
  outer loop makes no such store when the caller's buffer is as long as the \<^verbatim>\<open>len\<close>
  it passes.
\<close>

definition write_frame ::
  "real list list \<Rightarrow> nat \<Rightarrow> nat \<Rightarrow> nat \<times> byte list \<Rightarrow> nat \<times> byte list" where
  "write_frame samples s nchannels start =
     fold (\<lambda>c (off, cbuf).
             let pcm = PCM_FROM_VORBIS_SAMPLE (sample_at samples c s)
             in (off + VORBIS_BYTES_PER_SAMPLE,
                 cbuf[off + 0 := pcm_low_byte pcm, off + 1 := pcm_high_byte pcm]))
          [0 ..< nchannels] start"

text \<open>
  The outer loop, \<^verbatim>\<open>for (s = sample_index; s < sample_count; s++)\<close>, which is left
  early when the next frame does not fit. The last argument is
  \<^verbatim>\<open>vorbis->outputs_index\<close>.
\<close>

function write_vorbis_samples_loop ::
  "real list list \<Rightarrow> nat \<Rightarrow> nat \<Rightarrow> nat \<Rightarrow> nat \<Rightarrow> nat \<Rightarrow> byte list \<Rightarrow> nat
     \<Rightarrow> nat \<times> byte list \<times> nat" where
  "write_vorbis_samples_loop samples nchannels len sample_count s off cbuf idx =
     (if s < sample_count then
        (if off + VORBIS_BYTES_PER_SAMPLE * nchannels > len then (off, cbuf, idx)
         else (case write_frame samples s nchannels (off, cbuf) of
                 (off', cbuf') \<Rightarrow>
                   write_vorbis_samples_loop samples nchannels len sample_count (s + 1)
                     off' cbuf' (idx + 1)))
      else (off, cbuf, idx))"
  by pat_completeness auto
termination
  by (relation "measure (\<lambda>(samples, nchannels, len, sample_count, s, off, cbuf, idx).
                  sample_count - s)") auto

definition write_vorbis_samples ::
  "'d rbtk_vorbis_audio_source \<Rightarrow> nat \<Rightarrow> byte list \<Rightarrow> nat
     \<Rightarrow> 'd rbtk_vorbis_audio_source \<times> nat \<times> byte list" where
  "write_vorbis_samples vorbis bytes_written cbuf len =
     (case outputs vorbis of
        None \<Rightarrow> (vorbis, bytes_written, cbuf)
      | Some samples \<Rightarrow>
          (case write_vorbis_samples_loop samples (channels vorbis) len (outputs_size vorbis)
                  (outputs_index vorbis) bytes_written cbuf (outputs_index vorbis) of
             (off, cbuf', idx) \<Rightarrow>
               (let vorbis1 = vorbis\<lparr>outputs_index := idx\<rparr>
                in (if outputs_index vorbis1 \<ge> outputs_size vorbis1
                    then vorbis1\<lparr>outputs := None, outputs_size := 0, outputs_index := 0\<rparr>
                    else vorbis1,
                    off, cbuf'))))"

text \<open>Subtraction on \<^verbatim>\<open>size_t\<close> (64 bits).\<close>

definition size_sub :: "nat \<Rightarrow> nat \<Rightarrow> nat" where
  "size_sub a b = (if b \<le> a then a - b else a + 2 ^ 64 - b)"

text \<open>
  The loop \<^verbatim>\<open>while (samples == 0)\<close> of \<^verbatim>\<open>read_vorbis_pcm\<close> is left by one
  of its two \<^verbatim>\<open>return EOF\<close> statements or with a positive number of samples. The
  argument \<open>rd\<close> is the variable \<^verbatim>\<open>read\<close>, set once before the loop. After
  \<^verbatim>\<open>continue\<close> the loop condition is tested again, as after the end of the body.
  The \<^verbatim>\<open>assert\<close> before the shift is checked without \<^verbatim>\<open>NDEBUG\<close> only; with
  it, the shift itself runs with more bytes consumed than buffered.
\<close>

datatype 'd decode_exit =
  Decode_eof "'d rbtk_vorbis_audio_source" world
| Decode_samples nat "'d rbtk_vorbis_audio_source" world

partial_function (option) read_vorbis_pcm_loop ::
  "'d stb_vorbis \<Rightarrow> nat \<Rightarrow> 'd rbtk_vorbis_audio_source \<Rightarrow> world
     \<Rightarrow> (fault + 'd decode_exit) option" where
  "read_vorbis_pcm_loop api rd vorbis w =
     (case decoder vorbis of
        None \<Rightarrow> Some (Inl MemoryFault)
      | Some d \<Rightarrow>
          (case stb_vorbis_decode_frame_pushdata api d
                  (take (buffer_size vorbis) (buffer_mem vorbis)) of
             (d', bytes_used, out, samples) \<Rightarrow>
               (let vorbis1 = vorbis\<lparr>decoder := Some d',
                       outputs := (case out of None \<Rightarrow> outputs vorbis | Some p \<Rightarrow> Some p)\<rparr>
                in if bytes_used = 0 then
                     (if rd \<le> 0 then Some (Inr (Decode_eof vorbis1 w))
                      else if buffer_size vorbis1 \<ge> MAX_BUFSIZE
                      then (case rbtk_signal_error RBTK_ERROR_IO w of
                              Inl f \<Rightarrow> Some (Inl f)
                            | Inr w' \<Rightarrow> Some (Inr (Decode_eof vorbis1 w')))
                      else
                        (case double_buffer_size (buffer vorbis1) (buffer_mem vorbis1)
                                (buffer_size vorbis1) w of
                           Inl f \<Rightarrow> Some (Inl f)
                         | Inr (remaining, b, m, sz, w1) \<Rightarrow>
                             (case rbtk_read_bytes_into (vin vorbis1) m
                                     (buffer_offset vorbis1) remaining of
                                Inl f \<Rightarrow> Some (Inl f)
                              | Inr (n, m', inp') \<Rightarrow>
                                  (let vorbis2 = vorbis1\<lparr>buffer := b, buffer_mem := m',
                                          buffer_size := sz,
                                          buffer_offset := buffer_offset vorbis1 + n,
                                          vin := inp'\<rparr>
                                   in if samples = 0
                                      then read_vorbis_pcm_loop api rd vorbis2 w1
                                      else Some (Inr (Decode_samples samples vorbis2 w1))))))
                   else if \<not> NDEBUG w \<and> buffer_offset vorbis1 < bytes_used
                   then Some (Inl AssertionFailure)
                   else
                     (case shift_unconsumed_to_front (buffer_mem vorbis1)
                             (buffer_offset vorbis1) bytes_used of
                        Inl f \<Rightarrow> Some (Inl f)
                      | Inr (m', off') \<Rightarrow>
                          (let vorbis2 = vorbis1\<lparr>buffer_mem := m', buffer_offset := off'\<rparr>
                           in if samples = 0
                              then read_vorbis_pcm_loop api rd vorbis2 w
                              else Some (Inr (Decode_samples samples vorbis2 w)))))))"

text \<open>
  The \<^verbatim>\<open>int\<close> returned by \<^verbatim>\<open>read_pcm\<close>: a number of bytes, or \<^verbatim>\<open>EOF\<close>.
  The parameter \<^verbatim>\<open>off\<close> is unused by \<^verbatim>\<open>read_vorbis_pcm\<close> and left out. The
  caller's buffer is the list \<open>cbuf\<close>; the call returns its new contents.
\<close>

datatype pcm_return = Bytes nat | PCM_EOF

definition read_vorbis_pcm ::
  "'d stb_vorbis \<Rightarrow> 'd rbtk_vorbis_audio_source \<Rightarrow> byte list \<Rightarrow> nat \<Rightarrow> world
     \<Rightarrow> (fault + (pcm_return \<times> 'd rbtk_vorbis_audio_source \<times> byte list \<times> world)) option" where
  "read_vorbis_pcm api vorbis cbuf len w =
     (case write_vorbis_samples vorbis 0 cbuf len of
        (vorbis1, bytes_written, cbuf1) \<Rightarrow>
          if bytes_written \<ge> len
          then Some (Inr (Bytes bytes_written,
                 vorbis1\<lparr>expected_offset := expected_offset vorbis1 + bytes_written\<rparr>,
                 cbuf1, w))
          else
            (case rbtk_read_bytes_into (vin vorbis1) (buffer_mem vorbis1) (buffer_offset vorbis1)
                    (size_sub (buffer_size vorbis1) (buffer_offset vorbis1)) of
               Inl f \<Rightarrow> Some (Inl f)
             | Inr (rd, m, inp') \<Rightarrow>
                 (case read_vorbis_pcm_loop api rd
                         (vorbis1\<lparr>vin := inp', buffer_mem := m,
                                   buffer_offset := buffer_offset vorbis1 + rd\<rparr>) w of
                    None \<Rightarrow> None
                  | Some (Inl f) \<Rightarrow> Some (Inl f)
                  | Some (Inr (Decode_eof vorbis3 w1)) \<Rightarrow> Some (Inr (PCM_EOF, vorbis3, cbuf1, w1))
                  | Some (Inr (Decode_samples samples vorbis3 w1)) \<Rightarrow>
                      (case write_vorbis_samples
                              (vorbis3\<lparr>outputs_index := 0, outputs_size := samples\<rparr>)
                              bytes_written cbuf1 len of
                         (vorbis5, bytes_written', cbuf2) \<Rightarrow>
                           if bytes_written' > 0
                           then Some (Inr (Bytes bytes_written',
                                  vorbis5\<lparr>expected_offset :=
                                            expected_offset vorbis5 + bytes_written'\<rparr>,
                                  cbuf2, w1))
                           else Some (Inr (PCM_EOF, vorbis5, cbuf2, w1))))))"


text \<open>
  \<^verbatim>\<open>RBTK_AUDIO_SOURCE\<close> for the one implemented variant: the function table holds
  \<^verbatim>\<open>close_vorbis_source\<close> and \<^verbatim>\<open>read_vorbis_pcm\<close>, and \<^verbatim>\<open>impl\<close> is the
  Vorbis context (its address and its value). Sizes of structures are those of an LP64
  target; no statement below depends on them.
\<close>

record rbtk_audio_source_info =
  frequency_hz :: nat
  channel_count :: nat
  bits_per_sample :: nat

record 'd RBTK_AUDIO_SOURCE =
  src_at :: nat
  info :: rbtk_audio_source_info
  impl_at :: nat
  impl :: "'d rbtk_vorbis_audio_source"

definition sizeof_rbtk_vorbis_audio_source :: nat where
  "sizeof_rbtk_vorbis_audio_source = 88"

definition sizeof_RBTK_AUDIO_SOURCE :: nat where
  "sizeof_RBTK_AUDIO_SOURCE = 40"

definition VORBIS_BITS_PER_SAMPLE :: nat where
  "VORBIS_BITS_PER_SAMPLE = 16"

definition rbtk_source_audio ::
  "rbtk_audio_source_info \<Rightarrow> nat \<Rightarrow> 'd rbtk_vorbis_audio_source \<Rightarrow> world
     \<Rightarrow> fault + ('d RBTK_AUDIO_SOURCE option \<times> world)" where
  "rbtk_source_audio src_info impl_addr vorbis w =
     (case malloc sizeof_RBTK_AUDIO_SOURCE w of
        (None, w') \<Rightarrow>
          (case rbtk_signal_error RBTK_ERROR_OUT_OF_MEMORY w' of
             Inl f \<Rightarrow> Inl f
           | Inr w'' \<Rightarrow> Inr (None, w''))
      | (Some a, w') \<Rightarrow>
          Inr (Some \<lparr>src_at = a, info = src_info, impl_at = impl_addr, impl = vorbis\<rparr>, w'))"

text \<open>
  \<^verbatim>\<open>rbtk_source_ogg\<close>. Besides the source (\<open>None\<close> for \<^verbatim>\<open>NULL\<close>) the model
  returns the state of the byte source, which the caller still owns.
\<close>

definition rbtk_source_ogg ::
  "'d stb_vorbis \<Rightarrow> RBTK_IN_STREAM \<Rightarrow> world
     \<Rightarrow> (fault + ('d RBTK_AUDIO_SOURCE option \<times> RBTK_IN_STREAM \<times> world)) option" where
  "rbtk_source_ogg api inp w =
     (case malloc sizeof_rbtk_vorbis_audio_source w of
        (None, w1) \<Rightarrow>
          (case rbtk_signal_error RBTK_ERROR_OUT_OF_MEMORY w1 of
             Inl f \<Rightarrow> Some (Inl f)
           | Inr w2 \<Rightarrow> Some (Inr (None, inp, w2)))
      | (Some va, w1) \<Rightarrow>
          (case open_vorbis_decoder api
                  \<lparr>vin = inp, buffer = None, buffer_mem = [], buffer_size = 0,
                   buffer_offset = 0, decoder = None, header_size = 0, expected_offset = 0,
                   channels = 0, outputs = None, outputs_index = 0, outputs_size = 0\<rparr> w1 of
             None \<Rightarrow> None
           | Some (Inl f) \<Rightarrow> Some (Inl f)
           | Some (Inr (opened, vorbis, w2)) \<Rightarrow>
               if \<not> opened then Some (Inr (None, vin vorbis, free (Some va) w2))
               else
                 (case decoder vorbis of
                    None \<Rightarrow> Some (Inl MemoryFault)
                  | Some d \<Rightarrow>
                      (case stb_vorbis_get_info api d of
                         (sample_rate, nchannels) \<Rightarrow>
                           (case rbtk_source_audio
                                   \<lparr>frequency_hz = sample_rate, channel_count = nchannels,
                                    bits_per_sample = VORBIS_BITS_PER_SAMPLE\<rparr>
                                   va (vorbis\<lparr>channels := nchannels\<rparr>) w2 of
                              Inl f \<Rightarrow> Some (Inl f)
                            | Inr (src, w3) \<Rightarrow> Some (Inr (src, vin vorbis, w3)))))))"

text \<open>
  \<^verbatim>\<open>rbtk_read_pcm\<close>: the call through the function table, and the check for an
  overrun, which is an \<^verbatim>\<open>assert\<close> and so is made without \<^verbatim>\<open>NDEBUG\<close> only.
\<close>

definition rbtk_read_pcm ::
  "'d stb_vorbis \<Rightarrow> 'd RBTK_AUDIO_SOURCE \<Rightarrow> byte list \<Rightarrow> nat \<Rightarrow> world
     \<Rightarrow> (fault + (pcm_return \<times> 'd RBTK_AUDIO_SOURCE \<times> byte list \<times> world)) option" where
  "rbtk_read_pcm api src cbuf len w =
     (case read_vorbis_pcm api (impl src) cbuf len w of
        None \<Rightarrow> None
      | Some (Inl f) \<Rightarrow> Some (Inl f)
      | Some (Inr (rd, vorbis, cbuf', w')) \<Rightarrow>
          (case rd of
             PCM_EOF \<Rightarrow> Some (Inr (rd, src\<lparr>impl := vorbis\<rparr>, cbuf', w'))
           | Bytes n \<Rightarrow>
               if \<not> NDEBUG w' \<and> \<not> n \<le> len then Some (Inl AssertionFailure)
               else Some (Inr (rd, src\<lparr>impl := vorbis\<rparr>, cbuf', w'))))"

text \<open>
  \<^verbatim>\<open>rbtk_read_pcm\<close>s in a row, one for each requested length, each into a fresh
  buffer of that length, up to the first \<^verbatim>\<open>EOF\<close>: the bytes the caller was told
  about, in order, and whether \<^verbatim>\<open>EOF\<close> was reached.
\<close>

fun pcm_of_reads ::
  "'d stb_vorbis \<Rightarrow> 'd RBTK_AUDIO_SOURCE \<Rightarrow> nat list \<Rightarrow> world
     \<Rightarrow> (fault + (byte list \<times> bool)) option" where
  "pcm_of_reads api src [] w = Some (Inr ([], False))"
| "pcm_of_reads api src (len # lens) w =
     (case rbtk_read_pcm api src (replicate len 0) len w of
        None \<Rightarrow> None
      | Some (Inl f) \<Rightarrow> Some (Inl f)
      | Some (Inr (PCM_EOF, src', cbuf, w')) \<Rightarrow> Some (Inr ([], True))
      | Some (Inr (Bytes n, src', cbuf, w')) \<Rightarrow>
          (case pcm_of_reads api src' lens w' of
             None \<Rightarrow> None
           | Some (Inl f) \<Rightarrow> Some (Inl f)
           | Some (Inr (bytes, eof)) \<Rightarrow> Some (Inr (take n cbuf @ bytes, eof))))"

section \<open>The bytes of decoded frames\<close>

text \<open>
  The serialisation as the specification describes it, without a buffer: a frame is, channel
  by channel, the low and then the high byte of the converted sample, and \<open>k\<close> frames from
  sample \<open>s\<close> on are the frames \<open>s\<close>, \<open>s + 1\<close>, ... one after the other.
\<close>

definition pcm_frame :: "real list list \<Rightarrow> nat \<Rightarrow> nat \<Rightarrow> byte list" where
  "pcm_frame samples s nchannels =
     concat (map (\<lambda>c. [pcm_low_byte (PCM_FROM_VORBIS_SAMPLE (sample_at samples c s)),
                       pcm_high_byte (PCM_FROM_VORBIS_SAMPLE (sample_at samples c s))])
                 [0 ..< nchannels])"

definition pcm_frames :: "real list list \<Rightarrow> nat \<Rightarrow> nat \<Rightarrow> nat \<Rightarrow> byte list" where
  "pcm_frames samples s k nchannels =
     concat (map (\<lambda>i. pcm_frame samples i nchannels) [s ..< s + k])"

section \<open>Reachable contexts and their invariant\<close>


text \<open>The sizes the compressed buffer can have: 4096 doubled at most six times.\<close>

definition buffer_sizes :: "nat list" where
  "buffer_sizes = map (\<lambda>k. MIN_BUFSIZE * 2 ^ k) [0 ..< 7]"

definition context_ok :: "'d rbtk_vorbis_audio_source \<Rightarrow> bool" where
  "context_ok vorbis =
     (buffer_offset vorbis \<le> buffer_size vorbis
      \<and> length (buffer_mem vorbis) = buffer_size vorbis
      \<and> buffer_size vorbis \<in> set buffer_sizes)"


text \<open>
  What one call may do to a context: the number of channels stays, and a context that
  satisfies the invariant still does, with a buffer size that is the old one times a power
  of two.
\<close>

definition context_step ::
  "'d rbtk_vorbis_audio_source \<Rightarrow> 'd rbtk_vorbis_audio_source \<Rightarrow> bool" where
  "context_step v v' =
     (channels v' = channels v
      \<and> (context_ok v \<longrightarrow> context_ok v' \<and> (\<exists>j. buffer_size v' = buffer_size v * 2 ^ j)))"

text \<open>The context a run of the decode loop hands back.\<close>

fun exit_context :: "'d decode_exit \<Rightarrow> 'd rbtk_vorbis_audio_source" where
  "exit_context (Decode_eof vorbis w) = vorbis"
| "exit_context (Decode_samples n vorbis w) = vorbis"

section \<open>Concrete decoders, sources and states\<close>

text \<open>
  A release build on a thread that has its error record (the block at address 99) and no
  callback: nothing signalled yet, and the next block will have the address 100.
\<close>

definition world0 :: world where
  "world0 = \<lparr>allocated = [99 \<mapsto> 4112], next_block = 100, malloc_plan = [],
             NDEBUG = True, error_tls = Some 99, signaled = False,
             last_error = RBTK_ERROR_NONE, uncaught_error_fun = False,
             uncaught_errors = []\<rparr>"

text \<open>
  The same build on a thread that has signalled nothing so far and so has no error record
  yet, and a debug build (\<^verbatim>\<open>NDEBUG\<close> not defined).
\<close>

definition world_first_error :: world where
  "world_first_error = \<lparr>allocated = Map.empty, next_block = 100, malloc_plan = [],
             NDEBUG = True, error_tls = None, signaled = False,
             last_error = RBTK_ERROR_NONE, uncaught_error_fun = False,
             uncaught_errors = []\<rparr>"

definition world_debug :: world where
  "world_debug = world0\<lparr>NDEBUG := False\<rparr>"

definition three_bytes_in_two_pulls :: RBTK_IN_STREAM where
  "three_bytes_in_two_pulls = \<lparr>pending = [1, 2, 3], limits = [2]\<rparr>"

text \<open>
  A small decoder with the interface of the library. Its header is the byte \<open>0x4F\<close>.
  Frame number \<open>d\<close> is the single byte \<open>d\<close> and decodes to three samples on one
  channel; the decoder state is the number of the frame it expects next, and anything
  else at the front of the buffer makes it ask for more data.
\<close>

definition frame_decoder :: "nat stb_vorbis" where
  "frame_decoder =
     \<lparr>stb_vorbis_open_pushdata =
        (\<lambda>bs. if bs \<noteq> [] \<and> hd bs = 0x4F then Inr (1, 1) else Inl VORBIS_need_more_data),
      stb_vorbis_decode_frame_pushdata =
        (\<lambda>d bs. if bs \<noteq> [] \<and> hd bs = of_nat d
                 then (Suc d, 1, Some [[1 / 2, - 1 / 2, 1 / 4]], 3)
                 else (d, 0, None, 0)),
      stb_vorbis_get_info = (\<lambda>d. (44100, 1))\<rparr>"

text \<open>A source holding the header and frame 1.\<close>

definition one_frame_stream :: RBTK_IN_STREAM where
  "one_frame_stream = \<lparr>pending = [0x4F, 1], limits = []\<rparr>"

text \<open>The context \<^verbatim>\<open>rbtk_source_ogg\<close> builds from that source.\<close>

definition one_frame_opened :: "nat rbtk_vorbis_audio_source" where
  "one_frame_opened =
     \<lparr>vin = \<lparr>pending = [], limits = []\<rparr>, buffer = Some 101,
      buffer_mem = 1 # 1 # replicate 4094 0, buffer_size = 4096, buffer_offset = 1,
      decoder = Some 1, header_size = 1, expected_offset = 0, channels = 1,
      outputs = None, outputs_index = 0, outputs_size = 0\<rparr>"

text \<open>
  The same context after a first read of four bytes: frame 1 is decoded, two of its three
  samples are delivered and one is pending.
\<close>

definition one_sample_pending :: "nat rbtk_vorbis_audio_source" where
  "one_sample_pending =
     \<lparr>vin = \<lparr>pending = [], limits = []\<rparr>, buffer = Some 101,
      buffer_mem = 1 # 1 # replicate 4094 0, buffer_size = 4096, buffer_offset = 0,
      decoder = Some 2, header_size = 1, expected_offset = 4, channels = 1,
      outputs = Some [[1 / 2, - 1 / 2, 1 / 4]], outputs_index = 2, outputs_size = 3\<rparr>"

text \<open>A decoder that is never satisfied, one that rejects its input, and one whose header
  needs more than 131072 bytes of buffer.\<close>

definition never_ready_decoder :: "unit stb_vorbis" where
  "never_ready_decoder =
     \<lparr>stb_vorbis_open_pushdata = (\<lambda>bs. Inl VORBIS_need_more_data),
      stb_vorbis_decode_frame_pushdata = (\<lambda>d bs. (d, 0, None, 0)),
      stb_vorbis_get_info = (\<lambda>d. (44100, 2))\<rparr>"

definition rejecting_decoder :: "unit stb_vorbis" where
  "rejecting_decoder =
     \<lparr>stb_vorbis_open_pushdata = (\<lambda>bs. Inl (VORBIS_other_error 30)),
      stb_vorbis_decode_frame_pushdata = (\<lambda>d bs. (d, 0, None, 0)),
      stb_vorbis_get_info = (\<lambda>d. (44100, 2))\<rparr>"


text \<open>
  A context with 512 decoded samples on each of two channels, none delivered yet: sample
  \<open>i\<close> is \<open>(i + 1) / 32768\<close> on the left and \<open>- (i + 2) / 32768\<close> on the right, so
  that it converts to \<open>i + 1\<close> and \<open>- (i + 2)\<close>. With it, a buffer of 14 bytes in the
  caller's hands, each of them \<open>0xAA\<close>.
\<close>

definition stereo_samples :: "real list list" where
  "stereo_samples = [map (\<lambda>i. (real i + 1) / 32768) [0 ..< 512],
                     map (\<lambda>i. - (real i + 2) / 32768) [0 ..< 512]]"

definition stereo_512 :: "unit rbtk_vorbis_audio_source" where
  "stereo_512 =
     \<lparr>vin = \<lparr>pending = [7, 7, 7], limits = []\<rparr>, buffer = Some 101,
      buffer_mem = replicate 4096 0, buffer_size = 4096, buffer_offset = 0,
      decoder = Some (), header_size = 0, expected_offset = 0, channels = 2,
      outputs = Some stereo_samples, outputs_index = 0,
      outputs_size = 512\<rparr>"

definition fourteen_bytes :: "byte list" where
  "fourteen_bytes = [0xAA, 0xAA, 0xAA, 0xAA, 0xAA, 0xAA, 0xAA, 0xAA, 0xAA, 0xAA, 0xAA, 0xAA,
                     0xAA, 0xAA]"

text \<open>The audio source wrapped around \<open>one_frame_opened\<close>.\<close>

definition one_frame_source :: "nat RBTK_AUDIO_SOURCE" where
  "one_frame_source =
     \<lparr>src_at = 102,
      info = \<lparr>frequency_hz = 44100, channel_count = 1, bits_per_sample = 16\<rparr>,
      impl_at = 100, impl = one_frame_opened\<rparr>"

text \<open>The context after the second read of four bytes.\<close>

definition one_frame_drained :: "nat rbtk_vorbis_audio_source" where
  "one_frame_drained =
     \<lparr>vin = \<lparr>pending = [], limits = []\<rparr>, buffer = Some 101,
      buffer_mem = 1 # 1 # replicate 4094 0, buffer_size = 4096, buffer_offset = 0,
      decoder = Some 2, header_size = 1, expected_offset = 4, channels = 1,
      outputs = None, outputs_index = 0, outputs_size = 0\<rparr>"

text \<open>A source of three bytes, and the size of the compressed buffer of a context that
  \<^verbatim>\<open>rbtk_source_ogg\<close> has returned.\<close>

definition three_byte_stream :: RBTK_IN_STREAM where
  "three_byte_stream = \<lparr>pending = [1, 2, 3], limits = []\<rparr>"


section \<open>Conversion lemmas\<close>

lemma rbtk_clamp_i16_full_range: "rbtk_clamp_i16 v (- 32768) 32767 = v"
proof -
  have lo: "- 32768 \<le> sint v" using sint_ge [of v] by simp
  have hi: "sint v \<le> 32767" using sint_lt [of v] by simp
  have a: "\<not> v <s - 32768" using lo by (simp add: word_sless_alt)
  have b: "\<not> 32767 <s v" using hi by (simp add: word_sless_alt)
  show ?thesis by (simp add: rbtk_clamp_i16_def a b)
qed

lemma PCM_FROM_VORBIS_SAMPLE_is_cast:
  "PCM_FROM_VORBIS_SAMPLE s = short_of_float (32768 * s)"
  by (simp add: PCM_FROM_VORBIS_SAMPLE_def rbtk_clamp_i16_full_range)

lemma low_byte_mask: "(0x00FF :: 32 word) = mask 8"
  by (simp add: mask_eq_exp_minus_1)

lemma high_byte_mask: "(0xFF00 :: 32 word) = push_bit 8 (mask 8)"
  by (simp add: mask_eq_exp_minus_1 push_bit_eq_mult)

lemma pcm_low_byte_ucast: "pcm_low_byte p = ucast p"
  unfolding pcm_low_byte_def low_byte_mask
  by (rule bit_word_eqI) (auto simp add: bit_simps)

lemma pcm_high_byte_ucast: "pcm_high_byte p = ucast (drop_bit 8 p)"
  unfolding pcm_high_byte_def high_byte_mask
  by (rule bit_word_eqI) (auto simp add: bit_simps)

text \<open>The two bytes are the sample in little-endian order.\<close>

lemma pcm_bytes_little_endian: "word_cat (pcm_high_byte p) (pcm_low_byte p) = p"
  unfolding pcm_low_byte_ucast pcm_high_byte_ucast
  by (rule bit_word_eqI) (auto simp add: bit_simps)

lemma c_truncate_scaled_range:
  "- 1 \<le> s \<Longrightarrow> s < 1 \<Longrightarrow>
     - 32768 \<le> c_truncate (32768 * s) \<and> c_truncate (32768 * s) \<le> 32767"
  unfolding c_truncate_def
  by (auto simp: le_floor_iff floor_le_iff le_ceiling_iff ceiling_le_iff)

text \<open>Below full scale the macro agrees with scale-then-clamp.\<close>

lemma PCM_FROM_VORBIS_SAMPLE_in_range:
  "- 1 \<le> s \<Longrightarrow> s < 1 \<Longrightarrow> sint (PCM_FROM_VORBIS_SAMPLE s) = spec_pcm_of_sample s"
  using c_truncate_scaled_range [of s]
  unfolding PCM_FROM_VORBIS_SAMPLE_is_cast short_of_float_def spec_pcm_of_sample_def
  by (simp add: sint_sbintrunc' signed_take_bit_int_eq_self)

text \<open>
  Claim C6. The specification has a sample of 1.0 scaled to 32768 and then clamped to
  32767. In the code the product is cast to \<^verbatim>\<open>short\<close> first, so the clamp sees a value
  that is already in range and changes nothing: a sample of 1.0 comes out as -32768, and
  the bytes stored are \<open>0x00\<close>, \<open>0x80\<close> (low byte first).
\<close>

theorem C6_full_scale_sample_wraps:
  "sint (PCM_FROM_VORBIS_SAMPLE 1) = - 32768
   \<and> spec_pcm_of_sample 1 = 32767
   \<and> write_frame [[1]] 0 1 (0, [0, 0]) = (2, [0x00, 0x80])"
  by (simp add: PCM_FROM_VORBIS_SAMPLE_is_cast short_of_float_def c_truncate_def
      spec_pcm_of_sample_def write_frame_def sample_at_def VORBIS_BYTES_PER_SAMPLE_def
      pcm_low_byte_def pcm_high_byte_def)

section \<open>Error signalling: proofs\<close>

lemma malloc_cases [consumes 1, case_names fail ok]:
  assumes "malloc sz w = (r, w')"
  obtains
    (fail) "r = None" "malloc_plan w \<noteq> []" "\<not> hd (malloc_plan w)"
      "w' = w\<lparr>malloc_plan := tl (malloc_plan w)\<rparr>"
  | (ok) "r = Some (next_block w)" "malloc_plan w = [] \<or> hd (malloc_plan w)"
      "w' = w\<lparr>allocated := (allocated w)(next_block w \<mapsto> sz), next_block := Suc (next_block w),
              malloc_plan := tl (malloc_plan w)\<rparr>"
  using assms by (auto simp: malloc_def split: list.splits bool.splits)

lemma rbtk_signal_error_Inl:
  assumes "rbtk_signal_error e w = Inl f"
  shows "(\<not> NDEBUG w \<and> f = AssertionFailure)
         \<or> (NDEBUG w \<and> error_tls w = None \<and> f = Abort
            \<and> malloc_plan w \<noteq> [] \<and> \<not> hd (malloc_plan w))"
  using assms
  by (auto simp: rbtk_signal_error_def rbtk_signal_error_rt_def get_error_info_def malloc_def
      split: if_splits option.splits sum.splits prod.splits list.splits bool.splits)

lemma rbtk_signal_error_Inr:
  assumes "rbtk_signal_error e w = Inr w'"
  shows "NDEBUG w \<and> NDEBUG w' \<and> signaled w' \<and> last_error w' = e
         \<and> (case error_tls w of
               Some eir \<Rightarrow>
                 error_tls w' = Some eir \<and> allocated w' = allocated w
                 \<and> next_block w' = next_block w \<and> malloc_plan w' = malloc_plan w
             | None \<Rightarrow>
                 error_tls w' = Some (next_block w)
                 \<and> allocated w' = (allocated w)(next_block w \<mapsto> sizeof_priv_rbtk_error_info)
                 \<and> next_block w' = Suc (next_block w) \<and> malloc_plan w' = tl (malloc_plan w)
                 \<and> (malloc_plan w = [] \<or> hd (malloc_plan w)))"
  using assms
  by (auto simp: rbtk_signal_error_def rbtk_signal_error_rt_def get_error_info_def malloc_def
      split: if_splits option.splits sum.splits prod.splits list.splits bool.splits)

lemma rbtk_signal_error_returns:
  assumes "NDEBUG w" and "error_tls w \<noteq> None"
  shows "\<exists>w'. rbtk_signal_error e w = Inr w'"
  using assms
  by (auto simp: rbtk_signal_error_def rbtk_signal_error_rt_def get_error_info_def)

section \<open>Chunked buffering: proofs\<close>

lemma pulls_chunks_for:
  "pulls inp = chunks_for (fst (rbtk_read_bytes inp BUFFER_CHUNK_DATA_SIZE)) (snd (rbtk_read_bytes inp BUFFER_CHUNK_DATA_SIZE))"
  by (subst pulls.simps) (simp add: chunks_for_def split: prod.splits)

declare pulls.simps [simp del]

lemma no_chunk_allocated:
  "(\<lambda>a. if next_block w \<le> a \<and> a < next_block w + 0
        then Some sizeof_buffer_chunk else allocated w a) = allocated w"
  by (auto simp: fun_eq_iff)

lemma chunks_allocated_0: "chunks_allocated w 0 False = w"
  unfolding chunks_allocated_def no_chunk_allocated by simp

lemma chunks_allocated_fail: "chunks_allocated w 0 True = w\<lparr>malloc_plan := tl (malloc_plan w)\<rparr>"
  unfolding chunks_allocated_def no_chunk_allocated by (simp add: drop_Suc)

declare collect_chunks.simps [simp del]

lemma chunks_allocated_Suc:
  "chunks_allocated
     (w\<lparr>allocated := (allocated w)(next_block w \<mapsto> sizeof_buffer_chunk),
        next_block := Suc (next_block w), malloc_plan := tl (malloc_plan w)\<rparr>) k failed
   = chunks_allocated w (Suc k) failed"
  by (auto simp: chunks_allocated_def fun_eq_iff drop_Suc tl_drop)

text \<open>
  What the first loop computes: it allocates nodes for a prefix of the blocks the source
  yields, and stops either at the end of the source or at the first allocation that fails,
  where the error is signalled.
\<close>

lemma rbtk_read_bytes_length:
  "rbtk_read_bytes inp len = (rd, inp') \<Longrightarrow> length rd \<le> len"
  by (auto simp: rbtk_read_bytes_def Let_def split: list.splits)

lemma collect_chunks_spec:
  "length rd \<le> BUFFER_CHUNK_DATA_SIZE \<Longrightarrow>
   \<exists>new failed inp'.
      (\<forall>c \<in> set new. chunk_len c = length (chunk_data c))
    \<and> map chunk_at new = [next_block w ..< next_block w + length new]
    \<and> (\<forall>i < length new. i < length (malloc_plan w) \<longrightarrow> malloc_plan w ! i)
    \<and> map chunk_data new = take (length new) (chunks_for rd inp)
    \<and> (failed \<longrightarrow> length new < length (malloc_plan w) \<and> \<not> malloc_plan w ! length new
                  \<and> length new < length (chunks_for rd inp))
    \<and> (\<not> failed \<longrightarrow> length new = length (chunks_for rd inp))
    \<and> collect_chunks rd chunks ds inp w =
        (if failed
         then (case rbtk_signal_error RBTK_ERROR_OUT_OF_MEMORY
                      (chunks_allocated w (length new) True) of
                 Inl f \<Rightarrow> Inl f
               | Inr w' \<Rightarrow>
                   Inr (True, chunks @ new, ds + length (concat (map chunk_data new)), inp', w'))
         else Inr (False, chunks @ new, ds + length (concat (map chunk_data new)), inp',
                   chunks_allocated w (length new) False))"
proof (induction rd chunks ds inp w rule: collect_chunks.induct)
  case (1 rd chunks data_size inp w)
  show ?case
  proof (cases "length rd > 0")
    case False
    then have "collect_chunks rd chunks data_size inp w = Inr (False, chunks, data_size, inp, w)"
      by (subst collect_chunks.simps) simp
    with False show ?thesis
      by (intro exI[of _ "[]"] exI[of _ False] exI[of _ inp])
         (simp add: chunks_for_def chunks_allocated_0)
  next
    case True
    have na: "\<not> (\<not> NDEBUG w \<and> \<not> length rd \<le> BUFFER_CHUNK_DATA_SIZE)"
      using "1.prems" by simp
    obtain r w1 where m: "malloc sizeof_buffer_chunk w = (r, w1)" by (cases "malloc sizeof_buffer_chunk w")
    from m show ?thesis
    proof (cases rule: malloc_cases)
      case fail
      note r = fail(1) and ne = fail(2) and h = fail(3) and w1 = fail(4)
      have run: "collect_chunks rd chunks data_size inp w =
        (case rbtk_signal_error RBTK_ERROR_OUT_OF_MEMORY w1 of
           Inl f \<Rightarrow> Inl f | Inr w' \<Rightarrow> Inr (True, chunks, data_size, inp, w'))"
        using True m r "1.prems" by (subst collect_chunks.simps) simp
      show ?thesis
        by (intro exI[of _ "[]"] exI[of _ True] exI[of _ inp])
           (use True ne h in \<open>auto simp: run w1 chunks_allocated_fail chunks_for_def hd_conv_nth
               split: sum.splits\<close>)
    next
      case ok
      note r = ok(1) and ok = ok(2) and w1 = ok(3)
      obtain rd' inp1 where rb: "rbtk_read_bytes inp BUFFER_CHUNK_DATA_SIZE = (rd', inp1)"
        by (cases "rbtk_read_bytes inp BUFFER_CHUNK_DATA_SIZE")
      let ?c = "\<lparr>chunk_at = next_block w, chunk_len = length rd, chunk_data = rd\<rparr>"
      have run: "collect_chunks rd chunks data_size inp w =
         collect_chunks rd' (chunks @ [?c]) (data_size + length rd) inp1 w1"
        using True m r rb "1.prems" by (subst collect_chunks.simps) simp
      from "1.IH" [OF True na m [symmetric] r rb [symmetric] rbtk_read_bytes_length [OF rb]]
      obtain new failed inp' where n:
        "\<forall>c \<in> set new. chunk_len c = length (chunk_data c)"
        "map chunk_at new = [next_block w1 ..< next_block w1 + length new]"
        "\<forall>i < length new. i < length (malloc_plan w1) \<longrightarrow> malloc_plan w1 ! i"
        "map chunk_data new = take (length new) (chunks_for rd' inp1)"
        "failed \<longrightarrow> length new < length (malloc_plan w1) \<and> \<not> malloc_plan w1 ! length new
                  \<and> length new < length (chunks_for rd' inp1)"
        "\<not> failed \<longrightarrow> length new = length (chunks_for rd' inp1)"
        "collect_chunks rd' (chunks @ [?c]) (data_size + length rd) inp1 w1 =
          (if failed
           then (case rbtk_signal_error RBTK_ERROR_OUT_OF_MEMORY
                        (chunks_allocated w1 (length new) True) of
                   Inl f \<Rightarrow> Inl f
                 | Inr w' \<Rightarrow>
                     Inr (True, (chunks @ [?c]) @ new,
                          data_size + length rd + length (concat (map chunk_data new)), inp', w'))
           else Inr (False, (chunks @ [?c]) @ new,
                     data_size + length rd + length (concat (map chunk_data new)), inp',
                     chunks_allocated w1 (length new) False))"
        by blast
      have cf: "chunks_for rd inp = rd # chunks_for rd' inp1"
        using True rb by (simp add: chunks_for_def[of rd] pulls_chunks_for)
      have nb: "next_block w1 = Suc (next_block w)" and pl: "malloc_plan w1 = tl (malloc_plan w)"
        using w1 by simp_all
      have ca: "chunks_allocated w1 k b = chunks_allocated w (Suc k) b" for k b
        unfolding w1 by (rule chunks_allocated_Suc)
      have nthtl: "\<And>i. i < length (malloc_plan w1) \<Longrightarrow> malloc_plan w1 ! i = malloc_plan w ! Suc i"
        unfolding pl by (simp add: nth_tl)
      have len1: "length (malloc_plan w1) = length (malloc_plan w) - 1" unfolding pl by simp
      have h0: "0 < length (malloc_plan w) \<Longrightarrow> malloc_plan w ! 0" using ok by (cases "malloc_plan w") auto
      show ?thesis
      proof (intro exI[of _ "?c # new"] exI[of _ failed] exI[of _ inp'] conjI)
        show "\<forall>c \<in> set (?c # new). chunk_len c = length (chunk_data c)" using n(1) by simp
        have "[next_block w ..< next_block w + Suc (length new)] =
                next_block w # [Suc (next_block w) ..< Suc (next_block w) + length new]"
          by (subst upt_conv_Cons) simp_all
        then show "map chunk_at (?c # new) = [next_block w ..< next_block w + length (?c # new)]"
          using n(2) nb by (simp del: upt_Suc)
        show "\<forall>i < length (?c # new). i < length (malloc_plan w) \<longrightarrow> malloc_plan w ! i"
        proof (intro allI impI)
          fix i assume i: "i < length (?c # new)" "i < length (malloc_plan w)"
          show "malloc_plan w ! i"
          proof (cases i)
            case 0 then show ?thesis using h0 i by simp
          next
            case (Suc j)
            then have "j < length new" "j < length (malloc_plan w1)" using i len1 by simp_all
            then show ?thesis using n(3) nthtl Suc by auto
          qed
        qed
        show "map chunk_data (?c # new) = take (length (?c # new)) (chunks_for rd inp)"
          using n(4) cf by simp
        show "failed \<longrightarrow> length (?c # new) < length (malloc_plan w)
                \<and> \<not> malloc_plan w ! length (?c # new)
                \<and> length (?c # new) < length (chunks_for rd inp)"
          using n(5) cf len1 nthtl by auto
        show "\<not> failed \<longrightarrow> length (?c # new) = length (chunks_for rd inp)"
          using n(6) cf by auto
        show "collect_chunks rd chunks data_size inp w =
          (if failed
           then (case rbtk_signal_error RBTK_ERROR_OUT_OF_MEMORY
                        (chunks_allocated w (length (?c # new)) True) of
                   Inl f \<Rightarrow> Inl f
                 | Inr w' \<Rightarrow>
                     Inr (True, chunks @ ?c # new,
                          data_size + length (concat (map chunk_data (?c # new))), inp', w'))
           else Inr (False, chunks @ ?c # new,
                     data_size + length (concat (map chunk_data (?c # new))), inp',
                     chunks_allocated w (length (?c # new)) False))"
          unfolding run n(7) ca by (simp add: add.assoc split: sum.splits)
      qed
    qed
  qed
qed


lemma free_chunks_eq:
  "free_chunks cs w =
     w\<lparr>allocated := (\<lambda>a. if a \<in> set (map chunk_at cs) then None else allocated w a)\<rparr>"
proof (induction cs arbitrary: w)
  case Nil
  then show ?case by simp
next
  case (Cons c cs)
  let ?w1 = "free (Some (chunk_at c)) w"
  have e: "(\<lambda>a. if a \<in> set (map chunk_at cs) then None else allocated ?w1 a)
        = (\<lambda>a. if a \<in> set (map chunk_at (c # cs)) then None else allocated w a)"
    by (auto simp: fun_eq_iff free_def)
  have "free_chunks (c # cs) w = free_chunks cs ?w1"
    by simp
  also have "\<dots> = ?w1\<lparr>allocated :=
      (\<lambda>a. if a \<in> set (map chunk_at cs) then None else allocated ?w1 a)\<rparr>"
    by (rule Cons.IH)
  also have "\<dots> = ?w1\<lparr>allocated :=
      (\<lambda>a. if a \<in> set (map chunk_at (c # cs)) then None else allocated w a)\<rparr>"
    by (simp only: e)
  also have "\<dots> = w\<lparr>allocated :=
      (\<lambda>a. if a \<in> set (map chunk_at (c # cs)) then None else allocated w a)\<rparr>"
    by (simp add: free_def)
  finally show ?case .
qed

lemma length_store_bytes:
  "off + length bs \<le> length b \<Longrightarrow> length (store_bytes b off bs) = length b"
  by (simp add: store_bytes_def)

lemma copy_chunks_spec:
  "\<forall>c \<in> set cs. chunk_len c = length (chunk_data c) \<Longrightarrow>
   off + length (concat (map chunk_data cs)) \<le> length b \<Longrightarrow>
   copy_chunks cs off b w =
     (off + length (concat (map chunk_data cs)),
      take off b @ concat (map chunk_data cs) @ drop (off + length (concat (map chunk_data cs))) b,
      free_chunks cs w)"
proof (induction cs arbitrary: off b w)
  case Nil
  then show ?case by simp
next
  case (Cons c cs)
  let ?b = "store_bytes b off (chunk_data c)"
  have len: "length ?b = length b"
    using Cons.prems(2) by (intro length_store_bytes) simp
  have "copy_chunks (c # cs) off b w =
          copy_chunks cs (off + length (chunk_data c)) ?b (free (Some (chunk_at c)) w)"
    using Cons.prems(1) by simp
  also have "\<dots> = (off + length (chunk_data c) + length (concat (map chunk_data cs)),
      take (off + length (chunk_data c)) ?b @ concat (map chunk_data cs)
        @ drop (off + length (chunk_data c) + length (concat (map chunk_data cs))) ?b,
      free_chunks cs (free (Some (chunk_at c)) w))"
    using Cons.prems len by (intro Cons.IH) auto
  finally show ?case
    using Cons.prems(2) by (simp add: store_bytes_def ac_simps)
qed

lemma concat_pulls:
  "0 \<notin> set (limits inp) \<Longrightarrow> concat (pulls inp) = pending inp"
proof (induction inp rule: pulls.induct)
  case (1 inp)
  obtain rd inp' where rb: "rbtk_read_bytes inp BUFFER_CHUNK_DATA_SIZE = (rd, inp')"
    by (cases "rbtk_read_bytes inp BUFFER_CHUNK_DATA_SIZE")
  have app: "rd @ pending inp' = pending inp" and lim: "limits inp' = tl (limits inp)"
    using rb by (auto simp: rbtk_read_bytes_def Let_def)
  have z: "rd = [] \<Longrightarrow> pending inp = []"
    using rb "1.prems"
    by (auto simp: rbtk_read_bytes_def Let_def BUFFER_CHUNK_DATA_SIZE_def min_def split: list.splits if_splits)
  show ?case
  proof (cases "length rd > 0")
    case True
    have "0 \<notin> set (limits inp')" using "1.prems" lim by (cases "limits inp") auto
    from "1.IH"[OF rb[symmetric] True this] show ?thesis
      using rb True app by (subst pulls.simps) simp
  next
    case False
    then show ?thesis using rb z by (subst pulls.simps) simp
  qed
qed

text \<open>
  The whole call, in its two courses. Allocations are counted from 0; with \<open>k\<close> blocks
  pulled, allocation \<open>m < k\<close> is that of chunk node \<open>m + 1\<close> and allocation \<open>k\<close> is
  that of the final buffer.
\<close>

lemma rbtk_buffer_remaining_failure:
  assumes "\<exists>n \<le> length (pulls inp). n < length (malloc_plan w) \<and> \<not> malloc_plan w ! n"
  shows "\<exists>m cs inp'.
           m \<le> length (pulls inp) \<and> m < length (malloc_plan w) \<and> \<not> malloc_plan w ! m
           \<and> (\<forall>i < m. malloc_plan w ! i)
           \<and> map chunk_at cs = [next_block w ..< next_block w + m]
           \<and> rbtk_buffer_remaining inp w =
               (case rbtk_signal_error RBTK_ERROR_OUT_OF_MEMORY (chunks_allocated w m True) of
                  Inl f \<Rightarrow> Inl f
                | Inr w' \<Rightarrow> Inr (None, inp', free_chunks cs w'))"
proof -
  obtain rd inp1 where rb: "rbtk_read_bytes inp BUFFER_CHUNK_DATA_SIZE = (rd, inp1)"
    by (cases "rbtk_read_bytes inp BUFFER_CHUNK_DATA_SIZE")
  have ps: "chunks_for rd inp1 = pulls inp"
    using rb by (simp add: pulls_chunks_for)
  from collect_chunks_spec [OF rbtk_read_bytes_length [OF rb], of w inp1 "[]" 0, unfolded ps]
  obtain new failed inp' where c:
    "\<forall>c \<in> set new. chunk_len c = length (chunk_data c)"
    "map chunk_at new = [next_block w ..< next_block w + length new]"
    "\<forall>i < length new. i < length (malloc_plan w) \<longrightarrow> malloc_plan w ! i"
    "map chunk_data new = take (length new) (pulls inp)"
    "failed \<longrightarrow> length new < length (malloc_plan w) \<and> \<not> malloc_plan w ! length new
                  \<and> length new < length (pulls inp)"
    "\<not> failed \<longrightarrow> length new = length (pulls inp)"
    and run: "collect_chunks rd [] 0 inp1 w =
        (if failed
         then (case rbtk_signal_error RBTK_ERROR_OUT_OF_MEMORY
                      (chunks_allocated w (length new) True) of
                 Inl f \<Rightarrow> Inl f
               | Inr w' \<Rightarrow>
                   Inr (True, [] @ new, 0 + length (concat (map chunk_data new)), inp', w'))
         else Inr (False, [] @ new, 0 + length (concat (map chunk_data new)), inp',
                   chunks_allocated w (length new) False))"
    by blast
  show ?thesis
  proof (cases failed)
    case True
    have "rbtk_buffer_remaining inp w =
            (case rbtk_signal_error RBTK_ERROR_OUT_OF_MEMORY (chunks_allocated w (length new) True) of
               Inl f \<Rightarrow> Inl f
             | Inr w' \<Rightarrow> Inr (None, inp', free_chunks new w'))"
      unfolding rbtk_buffer_remaining_def rb prod.case run using True
      by (simp add: free_def split: sum.splits)
    then show ?thesis
      using c(2,3,5) True by (intro exI[of _ "length new"] exI[of _ new] exI[of _ inp']) simp
  next
    case False
    then have k: "length new = length (pulls inp)" using c(6) by simp
    from assms obtain n where n: "n \<le> length (pulls inp)" "n < length (malloc_plan w)"
      "\<not> malloc_plan w ! n"
      by blast
    have nk: "n = length (pulls inp)"
      using n c(3) k by (cases "n < length (pulls inp)") auto
    let ?wc = "chunks_allocated w (length new) False"
    let ?ds = "length (concat (map chunk_data new))"
    have plan: "malloc_plan ?wc = drop (length new) (malloc_plan w)"
      by (simp add: chunks_allocated_def)
    have hd: "malloc_plan ?wc \<noteq> []" "\<not> hd (malloc_plan ?wc)"
      using n nk k plan by (simp_all add: hd_drop_conv_nth)
    have tr: "chunks_allocated w (length new) True = ?wc\<lparr>malloc_plan := tl (malloc_plan ?wc)\<rparr>"
      by (simp add: chunks_allocated_def drop_Suc tl_drop)
    have "malloc ?ds ?wc = (None, ?wc\<lparr>malloc_plan := tl (malloc_plan ?wc)\<rparr>)"
      using hd by (cases "malloc_plan ?wc") (auto simp: malloc_def split: bool.splits)
    then have m: "malloc ?ds ?wc = (None, chunks_allocated w (length new) True)"
      by (simp only: tr)
    have "rbtk_buffer_remaining inp w =
            (case rbtk_signal_error RBTK_ERROR_OUT_OF_MEMORY (chunks_allocated w (length new) True) of
               Inl f \<Rightarrow> Inl f
             | Inr w' \<Rightarrow> Inr (None, inp', free_chunks new w'))"
      unfolding rbtk_buffer_remaining_def rb prod.case run using False m
      by (simp add: free_def split: sum.splits)
    then show ?thesis
      using c(2,3) n nk k by (intro exI[of _ "length new"] exI[of _ new] exI[of _ inp']) simp
  qed
qed

lemma rbtk_buffer_remaining_success:
  assumes wf: "wf_world w"
    and plan: "\<forall>n \<le> length (pulls inp). n < length (malloc_plan w) \<longrightarrow> malloc_plan w ! n"
  shows "\<exists>a inp' w'.
           rbtk_buffer_remaining inp w =
             Inr (Some \<lparr>buffer_at = a, buffer_bytes = concat (pulls inp),
                        reported_size = length (concat (pulls inp))\<rparr>, inp', w')
           \<and> a \<notin> dom (allocated w)
           \<and> allocated w' = (allocated w)(a \<mapsto> length (concat (pulls inp)))"
proof -
  obtain rd inp1 where rb: "rbtk_read_bytes inp BUFFER_CHUNK_DATA_SIZE = (rd, inp1)"
    by (cases "rbtk_read_bytes inp BUFFER_CHUNK_DATA_SIZE")
  have ps: "chunks_for rd inp1 = pulls inp"
    using rb by (simp add: pulls_chunks_for)
  from collect_chunks_spec [OF rbtk_read_bytes_length [OF rb], of w inp1 "[]" 0, unfolded ps]
  obtain new failed inp' where c:
    "\<forall>c \<in> set new. chunk_len c = length (chunk_data c)"
    "map chunk_at new = [next_block w ..< next_block w + length new]"
    "map chunk_data new = take (length new) (pulls inp)"
    "failed \<longrightarrow> length new < length (malloc_plan w) \<and> \<not> malloc_plan w ! length new
                  \<and> length new < length (pulls inp)"
    "\<not> failed \<longrightarrow> length new = length (pulls inp)"
    and run: "collect_chunks rd [] 0 inp1 w =
        (if failed
         then (case rbtk_signal_error RBTK_ERROR_OUT_OF_MEMORY
                      (chunks_allocated w (length new) True) of
                 Inl f \<Rightarrow> Inl f
               | Inr w' \<Rightarrow>
                   Inr (True, [] @ new, 0 + length (concat (map chunk_data new)), inp', w'))
         else Inr (False, [] @ new, 0 + length (concat (map chunk_data new)), inp',
                   chunks_allocated w (length new) False))"
    by blast
  have nf: "\<not> failed" using c(4) plan by auto
  then have k: "length new = length (pulls inp)" and dat: "map chunk_data new = pulls inp"
    using c(3,5) by simp_all
  let ?wc = "chunks_allocated w (length new) False"
  let ?ds = "length (concat (pulls inp))"
  let ?a = "next_block w + length new"
  let ?w2 = "?wc\<lparr>allocated := (allocated ?wc)(?a \<mapsto> ?ds), next_block := Suc ?a,
                  malloc_plan := tl (malloc_plan ?wc)\<rparr>"
  have pl: "malloc_plan ?wc = drop (length new) (malloc_plan w)"
    and nb: "next_block ?wc = ?a"
    by (simp_all add: chunks_allocated_def)
  have ok: "malloc_plan ?wc = [] \<or> hd (malloc_plan ?wc)"
  proof (cases "length (pulls inp) < length (malloc_plan w)")
    case True
    then have "hd (drop (length new) (malloc_plan w)) = malloc_plan w ! length (pulls inp)"
      using k by (simp add: hd_drop_conv_nth)
    then show ?thesis using plan True pl by simp
  next
    case False
    then show ?thesis using pl k by simp
  qed
  have m: "malloc ?ds ?wc = (Some ?a, ?w2)"
    using ok nb by (cases "malloc_plan ?wc") (auto simp: malloc_def split: bool.splits)
  have cp: "copy_chunks new 0 (replicate ?ds 0) ?w2 = (?ds, concat (pulls inp), free_chunks new ?w2)"
    using copy_chunks_spec [of new 0 "replicate ?ds 0" ?w2] c(1) dat by simp
  have res: "rbtk_buffer_remaining inp w =
        Inr (Some \<lparr>buffer_at = ?a, buffer_bytes = concat (pulls inp), reported_size = ?ds\<rparr>,
             inp', free_chunks new ?w2)"
    unfolding rbtk_buffer_remaining_def rb prod.case run using nf m cp dat by simp
  have al: "allocated (free_chunks new ?w2) = (allocated w)(?a \<mapsto> ?ds)"
    using wf c(2) by (auto simp: free_chunks_eq chunks_allocated_def wf_world_def fun_eq_iff)
  have fresh: "?a \<notin> dom (allocated w)"
    using wf by (auto simp: wf_world_def)
  show ?thesis using res al fresh by blast
qed

lemma rbtk_signal_error_aborts:
  assumes "NDEBUG w" "error_tls w = None" "malloc_plan w \<noteq> []" "\<not> hd (malloc_plan w)"
  shows "rbtk_signal_error e w = Inl Abort"
  using assms
  by (cases "malloc_plan w")
     (auto simp: rbtk_signal_error_def rbtk_signal_error_rt_def get_error_info_def malloc_def)

lemma rbtk_signal_error_debug:
  "\<not> NDEBUG w \<Longrightarrow> rbtk_signal_error e w = Inl AssertionFailure"
  by (simp add: rbtk_signal_error_def)

lemma rbtk_signal_error_first:
  assumes "NDEBUG w" "error_tls w = None" "malloc_plan w = [] \<or> hd (malloc_plan w)"
  shows "\<exists>w'. rbtk_signal_error e w = Inr w'"
  using assms
  by (cases "malloc_plan w")
     (auto simp: rbtk_signal_error_def rbtk_signal_error_rt_def get_error_info_def malloc_def)

text \<open>
  What a call does when one of its allocations fails, \<open>m\<close> being the first that does.
\<close>

lemma rbtk_buffer_remaining_out_of_memory:
  assumes wf: "wf_world w"
    and ex: "\<exists>n \<le> length (pulls inp). n < length (malloc_plan w) \<and> \<not> malloc_plan w ! n"
  shows "\<exists>m. m \<le> length (pulls inp) \<and> m < length (malloc_plan w) \<and> \<not> malloc_plan w ! m
           \<and> (\<forall>i < m. malloc_plan w ! i)
           \<and> (if \<not> NDEBUG w then rbtk_buffer_remaining inp w = Inl AssertionFailure
              else if error_tls w \<noteq> None
              then (\<exists>inp' w'. rbtk_buffer_remaining inp w = Inr (None, inp', w')
                     \<and> allocated w' = allocated w \<and> error_tls w' = error_tls w
                     \<and> signaled w' \<and> last_error w' = RBTK_ERROR_OUT_OF_MEMORY)
              else if Suc m < length (malloc_plan w) \<and> \<not> malloc_plan w ! Suc m
              then rbtk_buffer_remaining inp w = Inl Abort
              else (\<exists>inp' w'. rbtk_buffer_remaining inp w = Inr (None, inp', w')
                     \<and> allocated w' = (allocated w)(next_block w + m \<mapsto> sizeof_priv_rbtk_error_info)
                     \<and> error_tls w' = Some (next_block w + m)
                     \<and> signaled w' \<and> last_error w' = RBTK_ERROR_OUT_OF_MEMORY))"
proof -
  from rbtk_buffer_remaining_failure [OF ex]
  obtain m cs inp' where m: "m \<le> length (pulls inp)" "m < length (malloc_plan w)"
      "\<not> malloc_plan w ! m" "\<forall>i < m. malloc_plan w ! i"
    and at: "map chunk_at cs = [next_block w ..< next_block w + m]"
    and run: "rbtk_buffer_remaining inp w =
               (case rbtk_signal_error RBTK_ERROR_OUT_OF_MEMORY (chunks_allocated w m True) of
                  Inl f \<Rightarrow> Inl f
                | Inr w' \<Rightarrow> Inr (None, inp', free_chunks cs w'))"
    by blast
  let ?wc = "chunks_allocated w m True"
  have wc: "NDEBUG ?wc = NDEBUG w" "error_tls ?wc = error_tls w"
    "next_block ?wc = next_block w + m"
    "malloc_plan ?wc = drop (Suc m) (malloc_plan w)"
    "allocated ?wc = (\<lambda>a. if next_block w \<le> a \<and> a < next_block w + m
                            then Some sizeof_buffer_chunk else allocated w a)"
    by (simp_all add: chunks_allocated_def)
  have freed: "(\<lambda>a. if a \<in> set (map chunk_at cs) then None else allocated ?wc a) = allocated w"
    using wf unfolding at wc by (auto simp: fun_eq_iff wf_world_def)
  have fresh: "allocated w (next_block w + m) = None"
    using wf by (simp add: wf_world_def)
  have freed': "(\<lambda>a. if a \<in> set (map chunk_at cs) then None
                     else ((allocated ?wc)(next_block w + m \<mapsto> sizeof_priv_rbtk_error_info)) a)
                = (allocated w)(next_block w + m \<mapsto> sizeof_priv_rbtk_error_info)"
    using wf unfolding at wc by (auto simp: fun_eq_iff wf_world_def)
  have nxt: "(malloc_plan ?wc \<noteq> [] \<and> \<not> hd (malloc_plan ?wc))
             = (Suc m < length (malloc_plan w) \<and> \<not> malloc_plan w ! Suc m)"
    unfolding wc by (cases "Suc m < length (malloc_plan w)") (simp_all add: hd_drop_conv_nth)
  have body: "if \<not> NDEBUG w then rbtk_buffer_remaining inp w = Inl AssertionFailure
              else if error_tls w \<noteq> None
              then (\<exists>inp' w'. rbtk_buffer_remaining inp w = Inr (None, inp', w')
                     \<and> allocated w' = allocated w \<and> error_tls w' = error_tls w
                     \<and> signaled w' \<and> last_error w' = RBTK_ERROR_OUT_OF_MEMORY)
              else if Suc m < length (malloc_plan w) \<and> \<not> malloc_plan w ! Suc m
              then rbtk_buffer_remaining inp w = Inl Abort
              else (\<exists>inp' w'. rbtk_buffer_remaining inp w = Inr (None, inp', w')
                     \<and> allocated w' = (allocated w)(next_block w + m \<mapsto> sizeof_priv_rbtk_error_info)
                     \<and> error_tls w' = Some (next_block w + m)
                     \<and> signaled w' \<and> last_error w' = RBTK_ERROR_OUT_OF_MEMORY)"
  proof (cases "NDEBUG w")
    case False
    then have "rbtk_signal_error RBTK_ERROR_OUT_OF_MEMORY ?wc = Inl AssertionFailure"
      by (intro rbtk_signal_error_debug) (simp add: wc)
    then show ?thesis using False run by simp
  next
    case nd: True
    show ?thesis
    proof (cases "error_tls w")
      case (Some eir)
      from rbtk_signal_error_returns [of ?wc RBTK_ERROR_OUT_OF_MEMORY] nd Some
      obtain w1 where s: "rbtk_signal_error RBTK_ERROR_OUT_OF_MEMORY ?wc = Inr w1"
        by (auto simp: wc)
      from rbtk_signal_error_Inr [OF s] Some
      have w1: "signaled w1" "last_error w1 = RBTK_ERROR_OUT_OF_MEMORY"
        "error_tls w1 = Some eir" "allocated w1 = allocated ?wc"
        by (simp_all add: wc)
      have r: "rbtk_buffer_remaining inp w = Inr (None, inp', free_chunks cs w1)"
        using run s by simp
      have "allocated (free_chunks cs w1) = allocated w"
        unfolding free_chunks_eq w1(4) using freed by simp
      moreover have "error_tls (free_chunks cs w1) = error_tls w"
        "signaled (free_chunks cs w1)"
        "last_error (free_chunks cs w1) = RBTK_ERROR_OUT_OF_MEMORY"
        using w1 Some by (simp_all add: free_chunks_eq)
      ultimately show ?thesis using nd Some r by simp
    next
      case None
      show ?thesis
      proof (cases "Suc m < length (malloc_plan w) \<and> \<not> malloc_plan w ! Suc m")
        case True
        then have "rbtk_signal_error RBTK_ERROR_OUT_OF_MEMORY ?wc = Inl Abort"
          using nd None nxt by (intro rbtk_signal_error_aborts) (simp_all add: wc(1,2))
        then show ?thesis using nd None True run by simp
      next
        case False
        then have "malloc_plan ?wc = [] \<or> hd (malloc_plan ?wc)"
          using nxt by blast
        from rbtk_signal_error_first [OF _ _ this, of RBTK_ERROR_OUT_OF_MEMORY] nd None
        obtain w1 where s: "rbtk_signal_error RBTK_ERROR_OUT_OF_MEMORY ?wc = Inr w1"
          by (auto simp: wc(1,2))
        from rbtk_signal_error_Inr [OF s] None
        have w1: "signaled w1" "last_error w1 = RBTK_ERROR_OUT_OF_MEMORY"
          "error_tls w1 = Some (next_block w + m)"
          "allocated w1 = (allocated ?wc)(next_block w + m \<mapsto> sizeof_priv_rbtk_error_info)"
          by (simp_all add: wc(2,3))
        have r: "rbtk_buffer_remaining inp w = Inr (None, inp', free_chunks cs w1)"
          using run s by simp
        have "allocated (free_chunks cs w1)
              = (allocated w)(next_block w + m \<mapsto> sizeof_priv_rbtk_error_info)"
          unfolding free_chunks_eq w1(4) using freed' by simp
        moreover have "error_tls (free_chunks cs w1) = Some (next_block w + m)"
          "signaled (free_chunks cs w1)"
          "last_error (free_chunks cs w1) = RBTK_ERROR_OUT_OF_MEMORY"
          using w1 by (simp_all add: free_chunks_eq)
        ultimately show ?thesis using nd None False r by simp
      qed
    qed
  qed
  show ?thesis using m body by blast
qed

lemma pulls_three_bytes: "pulls three_bytes_in_two_pulls = [[1, 2], [3]]"
  by (simp add: pulls.simps three_bytes_in_two_pulls_def rbtk_read_bytes_def
      BUFFER_CHUNK_DATA_SIZE_def)

lemmas chunk_run_defs =
  rbtk_buffer_remaining_def collect_chunks.simps rbtk_read_bytes_def malloc_def free_def
  rbtk_signal_error_def rbtk_signal_error_rt_def get_error_info_def
  sizeof_priv_rbtk_error_info_def sizeof_buffer_chunk_def BUFFER_CHUNK_DATA_SIZE_def
  three_bytes_in_two_pulls_def world0_def world_debug_def world_first_error_def
  store_bytes_def

text \<open>
  Claim C7. The source delivers the bytes \<open>pending inp\<close> in pieces of any positive
  size and then answers with zero bytes. If no allocation of the call fails, the call
  returns one buffer that holds exactly the bytes pulled, in order, and reports their
  number as the size; afterwards that buffer is the only block the call has added to the
  heap. Whatever the sizes of the pieces, the bytes pulled are all of \<open>pending inp\<close>.
\<close>

theorem C7_buffer_remaining_exact:
  assumes "wf_world w"
    and "\<forall>n \<le> length (pulls inp). n < length (malloc_plan w) \<longrightarrow> malloc_plan w ! n"
    and "0 \<notin> set (limits inp)"
  shows "\<exists>a inp' w'.
           rbtk_buffer_remaining inp w =
             Inr (Some \<lparr>buffer_at = a, buffer_bytes = pending inp,
                        reported_size = length (pending inp)\<rparr>, inp', w')
           \<and> concat (pulls inp) = pending inp
           \<and> a \<notin> dom (allocated w)
           \<and> allocated w' = (allocated w)(a \<mapsto> length (pending inp))"
proof -
  have eq: "concat (pulls inp) = pending inp"
    using assms(3) by (rule concat_pulls)
  from rbtk_buffer_remaining_success [OF assms(1,2)]
  show ?thesis unfolding eq by simp
qed

theorem C7_buffer_remaining_exact_witness:
  "wf_world (world0\<lparr>malloc_plan := [True, True, True]\<rparr>)
   \<and> 0 \<notin> set (limits three_bytes_in_two_pulls)
   \<and> (\<exists>a inp' w'.
         rbtk_buffer_remaining three_bytes_in_two_pulls
             (world0\<lparr>malloc_plan := [True, True, True]\<rparr>) =
           Inr (Some \<lparr>buffer_at = a, buffer_bytes = [1, 2, 3], reported_size = 3\<rparr>, inp', w')
         \<and> allocated w' = [99 \<mapsto> 4112, a \<mapsto> 3])"
proof -
  have wf: "wf_world (world0\<lparr>malloc_plan := [True, True, True]\<rparr>)"
    by (simp add: wf_world_def world0_def)
  have plan: "\<forall>n \<le> length (pulls three_bytes_in_two_pulls).
                n < length (malloc_plan (world0\<lparr>malloc_plan := [True, True, True]\<rparr>))
                \<longrightarrow> malloc_plan (world0\<lparr>malloc_plan := [True, True, True]\<rparr>) ! n"
    by (simp add: nth_Cons split: nat.splits)
  have lim: "0 \<notin> set (limits three_bytes_in_two_pulls)"
    by (simp add: three_bytes_in_two_pulls_def)
  have p: "pending three_bytes_in_two_pulls = [1, 2, 3]"
    by (simp add: three_bytes_in_two_pulls_def)
  have len: "length ([1, 2, 3] :: byte list) = 3"
    by simp
  have al: "allocated (world0\<lparr>malloc_plan := [True, True, True]\<rparr>) = [99 \<mapsto> 4112]"
    by (simp add: world0_def)
  from C7_buffer_remaining_exact [OF wf plan lim, unfolded p len al] wf lim
  show ?thesis by blast
qed

text \<open>
  Claim C8, refuted as stated. In a debug build signalling any error ends in
  \<^verbatim>\<open>assert(RBTK_ERROR_NONE)\<close>, so the call aborts where the second node cannot be
  allocated, before it frees the first. In a release build the first error a thread
  signals allocates the thread's error record: if that allocation fails too the call
  aborts, and otherwise the call returns \<^verbatim>\<open>NULL\<close> with one block more on the heap
  than before (the error record, at address 101 here).
\<close>

theorem C8_failed_allocation_can_abort:
  "rbtk_buffer_remaining three_bytes_in_two_pulls (world_debug\<lparr>malloc_plan := [True, False]\<rparr>)
     = Inl AssertionFailure
   \<and> rbtk_buffer_remaining three_bytes_in_two_pulls
        (world_first_error\<lparr>malloc_plan := [True, False, False]\<rparr>)
     = Inl Abort
   \<and> (\<exists>inp' w'.
        rbtk_buffer_remaining three_bytes_in_two_pulls
          (world_first_error\<lparr>malloc_plan := [True, False]\<rparr>) = Inr (None, inp', w')
        \<and> allocated w' = [101 \<mapsto> 4112])"
  by (simp add: chunk_run_defs fun_eq_iff)

text \<open>
  Claim C8, amended. Counting the allocations of one call from 0, allocation \<open>n\<close> is that
  of chunk node \<open>n + 1\<close> for \<open>n\<close> below the number of non-empty pulls, and that of the
  final buffer for \<open>n\<close> equal to it. Let any of them fail. A debug build aborts on the
  assertion that ends every signalled error. A release build on a thread that has its
  error record returns \<^verbatim>\<open>NULL\<close> with out-of-memory signalled and with the table of
  live blocks what it was before the call: every node collected has been freed and no
  buffer is left. A release build on a thread without an error record either aborts (the
  allocation of the record fails as well) or returns \<^verbatim>\<open>NULL\<close> with out-of-memory
  signalled, and then the error record is the one block the call has added; if \<open>n\<close> is
  the first allocation that fails, it aborts exactly when allocation \<open>n + 1\<close> fails too.
\<close>

theorem C8_allocation_failure_frees_every_chunk:
  assumes "wf_world w"
    and "n \<le> length (pulls inp)"
    and "n < length (malloc_plan w)"
    and "\<not> malloc_plan w ! n"
  shows "(\<not> NDEBUG w \<longrightarrow> rbtk_buffer_remaining inp w = Inl AssertionFailure)
       \<and> (NDEBUG w \<and> error_tls w \<noteq> None \<longrightarrow>
            (\<exists>inp' w'. rbtk_buffer_remaining inp w = Inr (None, inp', w')
               \<and> allocated w' = allocated w
               \<and> signaled w' \<and> last_error w' = RBTK_ERROR_OUT_OF_MEMORY))
       \<and> (NDEBUG w \<and> error_tls w = None \<longrightarrow>
            rbtk_buffer_remaining inp w = Inl Abort
            \<or> (\<exists>inp' w' e. rbtk_buffer_remaining inp w = Inr (None, inp', w')
                 \<and> e \<notin> dom (allocated w)
                 \<and> allocated w' = (allocated w)(e \<mapsto> sizeof_priv_rbtk_error_info)
                 \<and> error_tls w' = Some e
                 \<and> signaled w' \<and> last_error w' = RBTK_ERROR_OUT_OF_MEMORY))
       \<and> (NDEBUG w \<and> error_tls w = None \<and> (\<forall>i < n. malloc_plan w ! i) \<longrightarrow>
            (rbtk_buffer_remaining inp w = Inl Abort)
              = (Suc n < length (malloc_plan w) \<and> \<not> malloc_plan w ! Suc n))"
proof -
  have "\<exists>n \<le> length (pulls inp). n < length (malloc_plan w) \<and> \<not> malloc_plan w ! n"
    using assms(2-4) by blast
  from rbtk_buffer_remaining_out_of_memory [OF assms(1) this]
  obtain m where m: "m \<le> length (pulls inp)" "m < length (malloc_plan w)"
      "\<not> malloc_plan w ! m" "\<forall>i < m. malloc_plan w ! i"
    and body: "if \<not> NDEBUG w then rbtk_buffer_remaining inp w = Inl AssertionFailure
              else if error_tls w \<noteq> None
              then (\<exists>inp' w'. rbtk_buffer_remaining inp w = Inr (None, inp', w')
                     \<and> allocated w' = allocated w \<and> error_tls w' = error_tls w
                     \<and> signaled w' \<and> last_error w' = RBTK_ERROR_OUT_OF_MEMORY)
              else if Suc m < length (malloc_plan w) \<and> \<not> malloc_plan w ! Suc m
              then rbtk_buffer_remaining inp w = Inl Abort
              else (\<exists>inp' w'. rbtk_buffer_remaining inp w = Inr (None, inp', w')
                     \<and> allocated w' = (allocated w)(next_block w + m \<mapsto> sizeof_priv_rbtk_error_info)
                     \<and> error_tls w' = Some (next_block w + m)
                     \<and> signaled w' \<and> last_error w' = RBTK_ERROR_OUT_OF_MEMORY)"
    by blast
  have fresh: "next_block w + m \<notin> dom (allocated w)"
    using assms(1) by (auto simp: wf_world_def)
  have c1: "\<not> NDEBUG w \<longrightarrow> rbtk_buffer_remaining inp w = Inl AssertionFailure"
    using body by simp
  have c2: "NDEBUG w \<and> error_tls w \<noteq> None \<longrightarrow>
            (\<exists>inp' w'. rbtk_buffer_remaining inp w = Inr (None, inp', w')
               \<and> allocated w' = allocated w
               \<and> signaled w' \<and> last_error w' = RBTK_ERROR_OUT_OF_MEMORY)"
    using body by auto
  have c3: "NDEBUG w \<and> error_tls w = None \<longrightarrow>
            rbtk_buffer_remaining inp w = Inl Abort
            \<or> (\<exists>inp' w' e. rbtk_buffer_remaining inp w = Inr (None, inp', w')
                 \<and> e \<notin> dom (allocated w)
                 \<and> allocated w' = (allocated w)(e \<mapsto> sizeof_priv_rbtk_error_info)
                 \<and> error_tls w' = Some e
                 \<and> signaled w' \<and> last_error w' = RBTK_ERROR_OUT_OF_MEMORY)"
  proof (intro impI)
    assume a: "NDEBUG w \<and> error_tls w = None"
    show "rbtk_buffer_remaining inp w = Inl Abort
            \<or> (\<exists>inp' w' e. rbtk_buffer_remaining inp w = Inr (None, inp', w')
                 \<and> e \<notin> dom (allocated w)
                 \<and> allocated w' = (allocated w)(e \<mapsto> sizeof_priv_rbtk_error_info)
                 \<and> error_tls w' = Some e
                 \<and> signaled w' \<and> last_error w' = RBTK_ERROR_OUT_OF_MEMORY)"
    proof (cases "Suc m < length (malloc_plan w) \<and> \<not> malloc_plan w ! Suc m")
      case True
      then show ?thesis using body a by simp
    next
      case False
      then obtain inp' w' where "rbtk_buffer_remaining inp w = Inr (None, inp', w')"
        "allocated w' = (allocated w)(next_block w + m \<mapsto> sizeof_priv_rbtk_error_info)"
        "error_tls w' = Some (next_block w + m)"
        "signaled w'" "last_error w' = RBTK_ERROR_OUT_OF_MEMORY"
        using body a by auto
      then show ?thesis using fresh by blast
    qed
  qed
  have c4: "NDEBUG w \<and> error_tls w = None \<and> (\<forall>i < n. malloc_plan w ! i) \<longrightarrow>
            (rbtk_buffer_remaining inp w = Inl Abort)
              = (Suc n < length (malloc_plan w) \<and> \<not> malloc_plan w ! Suc n)"
  proof (intro impI)
    assume a: "NDEBUG w \<and> error_tls w = None \<and> (\<forall>i < n. malloc_plan w ! i)"
    have "\<not> m < n" using a m(3) by blast
    moreover have "\<not> n < m" using m(4) assms(4) by blast
    ultimately have mn: "m = n" by simp
    show "(rbtk_buffer_remaining inp w = Inl Abort)
              = (Suc n < length (malloc_plan w) \<and> \<not> malloc_plan w ! Suc n)"
      using body a unfolding mn by (auto split: if_splits)
  qed
  show ?thesis using c1 c2 c3 c4 by blast
qed

theorem C8_allocation_failure_frees_every_chunk_witness:
  "wf_world (world0\<lparr>malloc_plan := [True, False]\<rparr>)
   \<and> 1 \<le> length (pulls three_bytes_in_two_pulls)
   \<and> NDEBUG (world0\<lparr>malloc_plan := [True, False]\<rparr>)
   \<and> error_tls (world0\<lparr>malloc_plan := [True, False]\<rparr>) \<noteq> None
   \<and> (\<exists>inp' w'.
         rbtk_buffer_remaining three_bytes_in_two_pulls
             (world0\<lparr>malloc_plan := [True, False]\<rparr>) = Inr (None, inp', w')
         \<and> allocated w' = [99 \<mapsto> 4112]
         \<and> signaled w' \<and> last_error w' = RBTK_ERROR_OUT_OF_MEMORY)
   \<and> wf_world (world_first_error\<lparr>malloc_plan := [True, False, False]\<rparr>)
   \<and> rbtk_buffer_remaining three_bytes_in_two_pulls
        (world_first_error\<lparr>malloc_plan := [True, False, False]\<rparr>) = Inl Abort
   \<and> wf_world (world_debug\<lparr>malloc_plan := [True, False]\<rparr>)
   \<and> rbtk_buffer_remaining three_bytes_in_two_pulls
        (world_debug\<lparr>malloc_plan := [True, False]\<rparr>) = Inl AssertionFailure"
proof -
  have n: "1 \<le> length (pulls three_bytes_in_two_pulls)"
    by (simp add: pulls_three_bytes)
  have wf: "wf_world (world0\<lparr>malloc_plan := [True, False]\<rparr>)"
    by (simp add: wf_world_def world0_def)
  have nd: "NDEBUG (world0\<lparr>malloc_plan := [True, False]\<rparr>)"
    "error_tls (world0\<lparr>malloc_plan := [True, False]\<rparr>) \<noteq> None"
    by (simp_all add: world0_def)
  have r1: "\<exists>inp' w'.
         rbtk_buffer_remaining three_bytes_in_two_pulls
             (world0\<lparr>malloc_plan := [True, False]\<rparr>) = Inr (None, inp', w')
         \<and> allocated w' = [99 \<mapsto> 4112]
         \<and> signaled w' \<and> last_error w' = RBTK_ERROR_OUT_OF_MEMORY"
    using C8_allocation_failure_frees_every_chunk
            [of "world0\<lparr>malloc_plan := [True, False]\<rparr>" 1 three_bytes_in_two_pulls, OF wf n] nd
    by (simp add: world0_def)
  have wf2: "wf_world (world_first_error\<lparr>malloc_plan := [True, False, False]\<rparr>)"
    by (simp add: wf_world_def world_first_error_def)
  have r2: "rbtk_buffer_remaining three_bytes_in_two_pulls
        (world_first_error\<lparr>malloc_plan := [True, False, False]\<rparr>) = Inl Abort"
    using C8_allocation_failure_frees_every_chunk
            [of "world_first_error\<lparr>malloc_plan := [True, False, False]\<rparr>" 1
                three_bytes_in_two_pulls, OF wf2 n]
    by (simp add: world_first_error_def)
  have wf3: "wf_world (world_debug\<lparr>malloc_plan := [True, False]\<rparr>)"
    by (simp add: wf_world_def world_debug_def world0_def)
  have r3: "rbtk_buffer_remaining three_bytes_in_two_pulls
        (world_debug\<lparr>malloc_plan := [True, False]\<rparr>) = Inl AssertionFailure"
    using C8_allocation_failure_frees_every_chunk
            [of "world_debug\<lparr>malloc_plan := [True, False]\<rparr>" 1 three_bytes_in_two_pulls, OF wf3 n]
    by (simp add: world_debug_def world0_def)
  show ?thesis using n wf nd r1 wf2 r2 wf3 r3 by blast
qed

section \<open>The streaming decoder: proofs\<close>


lemma fold_frame_step:
  assumes step: "\<And>c off cbuf. \<exists>cbuf'. f c (off, cbuf) = (off + 2, cbuf') \<and> length cbuf' = length cbuf"
  shows "\<exists>cbuf'. fold f cs (off, cbuf) = (off + 2 * length cs, cbuf') \<and> length cbuf' = length cbuf"
proof (induction cs arbitrary: off cbuf)
  case Nil
  then show ?case by simp
next
  case (Cons c cs)
  from step [of c off cbuf] obtain c1 where c1: "f c (off, cbuf) = (off + 2, c1)" "length c1 = length cbuf"
    by blast
  from Cons.IH [of "off + 2" c1] obtain c2
    where c2: "fold f cs (off + 2, c1) = (off + 2 + 2 * length cs, c2)" "length c2 = length c1"
    by blast
  show ?case using c1 c2 by simp
qed

lemma write_frame_result:
  "write_frame samples s n (off, cbuf) = (off', cbuf') \<Longrightarrow>
     off' = off + 2 * n \<and> length cbuf' = length cbuf"
proof -
  assume w: "write_frame samples s n (off, cbuf) = (off', cbuf')"
  have "\<exists>cbuf'. write_frame samples s n (off, cbuf) = (off + 2 * length [0 ..< n], cbuf')
          \<and> length cbuf' = length cbuf"
    unfolding write_frame_def
    by (rule fold_frame_step) (simp add: Let_def VORBIS_BYTES_PER_SAMPLE_def)
  with w show ?thesis by auto
qed

lemma write_vorbis_samples_loop_frames:
  "write_vorbis_samples_loop samples n len cnt s off cbuf idx = (off', cbuf', idx') \<Longrightarrow>
     \<exists>k. off' = off + k * (2 * n) \<and> idx' = idx + k \<and> k \<le> cnt - s
        \<and> length cbuf' = length cbuf
        \<and> (off \<le> len \<longrightarrow> off' \<le> len)
        \<and> (0 < n \<longrightarrow> off \<le> len \<longrightarrow> k = min (cnt - s) ((len - off) div (2 * n)))"
proof (induction samples n len cnt s off cbuf idx rule: write_vorbis_samples_loop.induct)
  case (1 samples n len cnt s off cbuf idx)
  show ?case
  proof (cases "s < cnt")
    case False
    with "1.prems" show ?thesis by (intro exI[of _ 0]) simp
  next
    case True
    note s = this
    show ?thesis
    proof (cases "off + VORBIS_BYTES_PER_SAMPLE * n > len")
      case True
      then have "0 < n \<Longrightarrow> off \<le> len \<Longrightarrow> (len - off) div (2 * n) = 0"
        by (simp add: VORBIS_BYTES_PER_SAMPLE_def)
      with True s "1.prems" show ?thesis by (intro exI[of _ 0]) auto
    next
      case False
      obtain o1 c1 where wf: "write_frame samples s n (off, cbuf) = (o1, c1)"
        by (cases "write_frame samples s n (off, cbuf)")
      from write_frame_result [OF wf] have o1: "o1 = off + 2 * n" and c1: "length c1 = length cbuf"
        by simp_all
      from "1.prems" s False wf
      have rec: "write_vorbis_samples_loop samples n len cnt (s + 1) o1 c1 (idx + 1) = (off', cbuf', idx')"
        by simp
      from "1.IH" [OF s False wf [symmetric] rec]
      obtain k where k: "off' = o1 + k * (2 * n)" "idx' = idx + 1 + k" "k \<le> cnt - (s + 1)"
        "length cbuf' = length c1" "o1 \<le> len \<longrightarrow> off' \<le> len"
        "0 < n \<longrightarrow> o1 \<le> len \<longrightarrow> k = min (cnt - (s + 1)) ((len - o1) div (2 * n))"
        by blast
      have fit: "off + 2 * n \<le> len" using False by (simp add: VORBIS_BYTES_PER_SAMPLE_def)
      have divs: "0 < n \<Longrightarrow> (len - off) div (2 * n) = Suc ((len - (off + 2 * n)) div (2 * n))"
      proof -
        assume n: "0 < n"
        have "len - off = (len - (off + 2 * n)) + 2 * n" using fit by simp
        then have "(len - off) div (2 * n) = (len - (off + 2 * n)) div (2 * n) + 1"
          using n by (metis div_add_self2 mult_eq_0_iff not_gr_zero zero_neq_numeral)
        then show ?thesis by simp
      qed
      show ?thesis
      proof (intro exI[of _ "Suc k"] conjI impI)
        show "off' = off + Suc k * (2 * n)" using k(1) o1 by simp
        show "idx' = idx + Suc k" using k(2) by simp
        show "Suc k \<le> cnt - s" using k(3) s by simp
        show "length cbuf' = length cbuf" using k(4) c1 by simp
        show "off' \<le> len" using k(5) o1 fit by simp
        show "Suc k = min (cnt - s) ((len - off) div (2 * n))" if "0 < n" "off \<le> len"
          using k(6) that o1 fit divs s by (auto simp: min_def)
      qed
    qed
  qed
qed



lemma context_step_refl: "context_step v v"
  unfolding context_step_def by (auto intro: exI[of _ 0])

lemma context_step_trans:
  assumes ab: "context_step a b" and bc: "context_step b c"
  shows "context_step a c"
proof -
  have ch: "channels c = channels a" using ab bc by (simp add: context_step_def)
  have "context_ok c \<and> (\<exists>j. buffer_size c = buffer_size a * 2 ^ j)" if a: "context_ok a"
  proof -
    from ab a obtain j where b: "context_ok b" "buffer_size b = buffer_size a * 2 ^ j"
      by (auto simp: context_step_def)
    from bc b(1) obtain k where c: "context_ok c" "buffer_size c = buffer_size b * 2 ^ k"
      by (auto simp: context_step_def)
    have "buffer_size c = buffer_size a * 2 ^ (j + k)"
      using b(2) c(2) by (simp add: power_add)
    then show ?thesis using c(1) by blast
  qed
  then show ?thesis using ch by (simp add: context_step_def)
qed

lemma context_step_same_buffer:
  "channels v' = channels v \<Longrightarrow> buffer_size v' = buffer_size v
     \<Longrightarrow> length (buffer_mem v') = length (buffer_mem v)
     \<Longrightarrow> buffer_offset v' \<le> buffer_offset v \<Longrightarrow> context_step v v'"
  unfolding context_step_def context_ok_def by (auto intro: exI[of _ 0])

lemma length_store_bytes':
  "off + length bs \<le> length b \<Longrightarrow> length (store_bytes b off bs) = length b"
  by (simp add: store_bytes_def)

lemma rbtk_read_bytes_into_Inr:
  "rbtk_read_bytes_into inp b off len = Inr (n, b', inp') \<Longrightarrow>
     off + n \<le> length b \<and> length b' = length b \<and> n \<le> len"
  by (auto simp: rbtk_read_bytes_into_def rbtk_read_bytes_def Let_def store_bytes_def
      split: prod.splits if_splits list.splits)

lemma shift_unconsumed_to_front_Inr:
  "shift_unconsumed_to_front b rd consumed = Inr (b', rd') \<Longrightarrow>
     length b' = length b \<and> rd' = rd - consumed \<and> consumed \<le> rd"
  by (auto simp: shift_unconsumed_to_front_def Let_def store_bytes_def split: if_splits)

lemma double_buffer_size_result:
  assumes run: "double_buffer_size p b sz w = Inr (unused, p', b', sz', w')"
    and small: "sz < MAX_BUFSIZE"
  shows "(sz' = sz \<and> b' = b \<and> p' = p) \<or> (sz' = 2 * sz \<and> length b' = 2 * sz)"
proof -
  have "2 * sz < (2 :: nat) ^ 64" using small by (simp add: MAX_BUFSIZE_def)
  then have m: "(sz * 2) mod 2 ^ 64 = 2 * sz" by (simp add: mult.commute)
  show ?thesis
    using run unfolding double_buffer_size_def Let_def m
    by (auto simp: store_bytes_def split: if_splits prod.splits option.splits sum.splits)
qed

lemma buffer_sizes_list:
  "buffer_sizes = [4096, 8192, 16384, 32768, 65536, 131072, 262144]"
  unfolding buffer_sizes_def MIN_BUFSIZE_def
  by (simp add: upt_rec [of _ "numeral k" for k])

lemma buffer_sizes_double:
  "sz \<in> set buffer_sizes \<Longrightarrow> sz < MAX_BUFSIZE \<Longrightarrow> 2 * sz \<in> set buffer_sizes"
  unfolding buffer_sizes_list MAX_BUFSIZE_def by auto

lemma context_step_grow:
  assumes d: "double_buffer_size (buffer v) (buffer_mem v) (buffer_size v) w
               = Inr (unused, p', b', sz', w')"
    and r: "rbtk_read_bytes_into inp b' (buffer_offset v) unused = Inr (n, b'', inp')"
    and small: "buffer_size v < MAX_BUFSIZE"
  shows "context_step v (v\<lparr>buffer := p', buffer_mem := b'', buffer_size := sz',
           buffer_offset := buffer_offset v + n, vin := inp'\<rparr>)"
proof -
  from rbtk_read_bytes_into_Inr [OF r]
  have r': "buffer_offset v + n \<le> length b'" "length b'' = length b'" by simp_all
  from double_buffer_size_result [OF d small]
  show ?thesis
  proof
    assume "sz' = buffer_size v \<and> b' = buffer_mem v \<and> p' = buffer v"
    then show ?thesis using r'
      unfolding context_step_def context_ok_def by (auto intro: exI[of _ 0])
  next
    assume "sz' = 2 * buffer_size v \<and> length b' = 2 * buffer_size v"
    then show ?thesis using r' small buffer_sizes_double [of "buffer_size v"]
      unfolding context_step_def context_ok_def by (auto intro: exI[of _ 1])
  qed
qed


lemma read_vorbis_pcm_loop_step:
  assumes "read_vorbis_pcm_loop api rd v w = Some y"
  shows "\<forall>e. y = Inr e \<longrightarrow> context_step v (exit_context e)"
  using assms
proof (induction rule: read_vorbis_pcm_loop.raw_induct [rotated 1, consumes 1, case_names step])
  case (step loop api rd vorbis w y)
  note body = step.hyps and IH = step.IH
  show ?case
  proof (cases "decoder vorbis")
    case None
    with body show ?thesis by auto
  next
    case (Some d)
    obtain d' used out smp where dec:
      "stb_vorbis_decode_frame_pushdata api d (take (buffer_size vorbis) (buffer_mem vorbis))
         = (d', used, out, smp)"
      using prod_cases4 by blast
    define v1 where "v1 = vorbis\<lparr>decoder := Some d',
       outputs := (case out of None \<Rightarrow> outputs vorbis | Some p \<Rightarrow> Some p)\<rparr>"
    have s1: "context_step vorbis v1"
      by (rule context_step_same_buffer) (simp_all add: v1_def)
    have f1: "buffer v1 = buffer vorbis" "buffer_mem v1 = buffer_mem vorbis"
      "buffer_size v1 = buffer_size vorbis" "buffer_offset v1 = buffer_offset vorbis"
      "vin v1 = vin vorbis"
      by (simp_all add: v1_def)
    note body1 = body [unfolded Some dec option.case prod.case Let_def v1_def [symmetric]]
    show ?thesis
    proof (cases "used = 0")
      case True
      note used = this
      show ?thesis
      proof (cases "rd \<le> 0 \<or> MAX_BUFSIZE \<le> buffer_size vorbis")
        case True
        with body1 used have "(\<exists>f. y = Inl f) \<or> (\<exists>w'. y = Inr (Decode_eof v1 w'))"
          by (auto simp: f1 split: if_splits sum.splits)
        then show ?thesis using s1 by auto
      next
        case False
        then have small: "buffer_size v1 < MAX_BUFSIZE" and rd: "\<not> rd \<le> 0" "\<not> MAX_BUFSIZE \<le> buffer_size v1"
          by (simp_all add: f1)
        show ?thesis
        proof (cases "double_buffer_size (buffer v1) (buffer_mem v1) (buffer_size v1) w")
          case (Inl f)
          with body1 used rd have "y = Inl f"
            by simp
          then show ?thesis by simp
        next
          case (Inr g)
          then obtain remaining b m sz w1 where dbl:
            "double_buffer_size (buffer v1) (buffer_mem v1) (buffer_size v1) w
               = Inr (remaining, b, m, sz, w1)"
            by (cases g) auto
        show ?thesis
        proof (cases "rbtk_read_bytes_into (vin v1) m (buffer_offset v1) remaining")
          case (Inl f)
          with body1 used rd dbl have "y = Inl f"
            by simp
          then show ?thesis by simp
        next
          case (Inr r)
          then obtain n m' inp' where r: "r = (n, m', inp')" by (cases r)
          define v2 where "v2 = v1\<lparr>buffer := b, buffer_mem := m', buffer_size := sz,
             buffer_offset := buffer_offset v1 + n, vin := inp'\<rparr>"
          have s2: "context_step v1 v2"
            unfolding v2_def using dbl Inr [unfolded r] small by (rule context_step_grow)
          have s12: "context_step vorbis v2" using s1 s2 by (rule context_step_trans)
          from body1 used rd dbl Inr r
          have y: "(if smp = 0 then loop api rd v2 w1 else Some (Inr (Decode_samples smp v2 w1))) = Some y"
            by (auto simp: v2_def split: if_splits)
          show ?thesis
          proof (cases "smp = 0")
            case True
            with y have "loop api rd v2 w1 = Some y" by simp
            from IH [OF this] s12 show ?thesis by (auto intro: context_step_trans)
          next
            case False
            with y s12 show ?thesis by auto
          qed
        qed
        qed
      qed
    next
      case False
      note used = this
      show ?thesis
      proof (cases "\<not> NDEBUG w \<and> buffer_offset v1 < used")
        case True
        with body1 used have "y = Inl AssertionFailure"
          by simp
        then show ?thesis by simp
      next
        case False
        note fits = this
        show ?thesis
        proof (cases "shift_unconsumed_to_front (buffer_mem v1) (buffer_offset v1) used")
          case (Inl f)
          with body1 used fits have "y = Inl f"
            by auto
          then show ?thesis by simp
        next
          case (Inr r)
          then obtain m' off' where r: "r = (m', off')" by (cases r)
          define v2 where "v2 = v1\<lparr>buffer_mem := m', buffer_offset := off'\<rparr>"
          from shift_unconsumed_to_front_Inr [OF Inr [unfolded r]]
          have s2: "context_step v1 v2"
            by (intro context_step_same_buffer) (simp_all add: v2_def)
          have s12: "context_step vorbis v2" using s1 s2 by (rule context_step_trans)
          from body1 used fits Inr r
          have y: "(if smp = 0 then loop api rd v2 w else Some (Inr (Decode_samples smp v2 w))) = Some y"
            by (auto simp: v2_def split: if_splits)
          show ?thesis
          proof (cases "smp = 0")
            case True
            with y have "loop api rd v2 w = Some y" by simp
            from IH [OF this] s12 show ?thesis by (auto intro: context_step_trans)
          next
            case False
            with y s12 show ?thesis by auto
          qed
        qed
      qed
    qed
  qed
qed


lemma write_vorbis_samples_result:
  assumes "write_vorbis_samples v bw cbuf len = (v', bw', cbuf')"
  shows "\<exists>k. bw' = bw + k * (2 * channels v) \<and> (bw \<le> len \<longrightarrow> bw' \<le> len)
           \<and> length cbuf' = length cbuf
           \<and> channels v' = channels v \<and> buffer_size v' = buffer_size v
           \<and> buffer_mem v' = buffer_mem v \<and> buffer_offset v' = buffer_offset v
           \<and> buffer v' = buffer v \<and> vin v' = vin v \<and> decoder v' = decoder v
           \<and> expected_offset v' = expected_offset v"
proof (cases "outputs v")
  case None
  with assms have "v' = v" "bw' = bw" "cbuf' = cbuf"
    by (simp_all add: write_vorbis_samples_def)
  then show ?thesis
    by (intro exI[of _ 0]) simp
next
  case (Some samples)
  obtain off cb idx where l:
    "write_vorbis_samples_loop samples (channels v) len (outputs_size v) (outputs_index v) bw cbuf
       (outputs_index v) = (off, cb, idx)"
    using prod_cases3 by blast
  from write_vorbis_samples_loop_frames [OF l]
  obtain k where k: "off = bw + k * (2 * channels v)" "length cb = length cbuf"
    "bw \<le> len \<longrightarrow> off \<le> len"
    by blast
  note run = assms [unfolded write_vorbis_samples_def Some option.case l prod.case Let_def]
  have res: "bw' = off" "cbuf' = cb" using run by simp_all
  have "v' = v\<lparr>outputs_index := idx, outputs := None, outputs_size := 0, outputs_index := 0\<rparr>
        \<or> v' = v\<lparr>outputs_index := idx\<rparr>"
    using run by (cases "outputs_size v \<le> idx") simp_all
  then have fields: "channels v' = channels v \<and> buffer_size v' = buffer_size v
           \<and> buffer_mem v' = buffer_mem v \<and> buffer_offset v' = buffer_offset v
           \<and> buffer v' = buffer v \<and> vin v' = vin v \<and> decoder v' = decoder v
           \<and> expected_offset v' = expected_offset v"
    by (elim disjE) simp_all
  show ?thesis
    using k res fields by (intro exI[of _ k]) simp
qed

lemma read_vorbis_pcm_Inr:
  assumes run: "read_vorbis_pcm api v cbuf len w = Some (Inr (r, v', cbuf', w'))"
  shows "context_step v v' \<and> (\<forall>n. r = Bytes n \<longrightarrow> 2 * channels v dvd n \<and> n \<le> len)
         \<and> length cbuf' = length cbuf"
proof -
  obtain v1 bw1 cb1 where w1: "write_vorbis_samples v 0 cbuf len = (v1, bw1, cb1)"
    using prod_cases3 by blast
  from write_vorbis_samples_result [OF w1]
  obtain k1 where k1: "bw1 = k1 * (2 * channels v)" "bw1 \<le> len" "length cb1 = length cbuf"
    and f1: "channels v1 = channels v" "buffer_size v1 = buffer_size v"
      "buffer_mem v1 = buffer_mem v" "buffer_offset v1 = buffer_offset v"
    by auto
  have s1: "context_step v v1"
    by (rule context_step_same_buffer) (simp_all add: f1)
  note ch1 = f1(1)
  note run1 = run [unfolded read_vorbis_pcm_def w1 prod.case]
  show ?thesis
  proof (cases "len \<le> bw1")
    case True
    with run1 have "r = Bytes bw1" "v' = v1\<lparr>expected_offset := expected_offset v1 + bw1\<rparr>" "cbuf' = cb1"
      by simp_all
    moreover have "context_step v1 (v1\<lparr>expected_offset := expected_offset v1 + bw1\<rparr>)"
      by (rule context_step_same_buffer) simp_all
    ultimately show ?thesis using s1 k1 by (auto intro: context_step_trans)
  next
    case False
    note more = this
    show ?thesis
    proof (cases "rbtk_read_bytes_into (vin v1) (buffer_mem v1) (buffer_offset v1)
                    (size_sub (buffer_size v1) (buffer_offset v1))")
      case (Inl f)
      with run1 more show ?thesis by simp
    next
      case (Inr x)
      then obtain rd m inp' where x: "x = (rd, m, inp')" by (cases x)
      define v2 where "v2 = v1\<lparr>vin := inp', buffer_mem := m, buffer_offset := buffer_offset v1 + rd\<rparr>"
      from rbtk_read_bytes_into_Inr [OF Inr [unfolded x]]
      have rd: "buffer_offset v1 + rd \<le> length (buffer_mem v1)" "length m = length (buffer_mem v1)"
        by simp_all
      have s2: "context_step v1 v2"
        unfolding context_step_def context_ok_def v2_def using rd by (auto intro: exI[of _ 0])
      have s12: "context_step v v2" using s1 s2 by (rule context_step_trans)
      have ch2: "channels v2 = channels v" using ch1 by (simp add: v2_def)
      note run2 = run1 [unfolded Inr x sum.case prod.case v2_def [symmetric]]
      show ?thesis
      proof (cases "read_vorbis_pcm_loop api rd v2 w")
        case None
        with run2 more show ?thesis by simp
      next
        case (Some y)
        show ?thesis
        proof (cases y)
          case (Inl f)
          with run2 more Some show ?thesis by simp
        next
          case (Inr e)
          from read_vorbis_pcm_loop_step [OF Some] Inr
          have s3: "context_step v2 (exit_context e)" by simp
          show ?thesis
          proof (cases e)
            case (Decode_eof v3 w3)
            with run2 more Some Inr have "r = PCM_EOF" "v' = v3" "cbuf' = cb1" by simp_all
            then show ?thesis using s12 s3 Decode_eof k1 by (auto intro: context_step_trans)
          next
            case (Decode_samples smp v3 w3)
            define v4 where "v4 = v3\<lparr>outputs_index := 0, outputs_size := smp\<rparr>"
            obtain v5 bw2 cb2 where w2: "write_vorbis_samples v4 bw1 cb1 len = (v5, bw2, cb2)"
              using prod_cases3 by blast
            have s4: "context_step v3 v4"
              by (rule context_step_same_buffer) (simp_all add: v4_def)
            from write_vorbis_samples_result [OF w2]
            obtain k2 where k2: "bw2 = bw1 + k2 * (2 * channels v4)" "bw2 \<le> len"
              "length cb2 = length cb1"
              and f5: "channels v5 = channels v4" "buffer_size v5 = buffer_size v4"
                "buffer_mem v5 = buffer_mem v4" "buffer_offset v5 = buffer_offset v4"
              using k1(2) by auto
            have s5: "context_step v4 v5"
              by (rule context_step_same_buffer) (simp_all add: f5)
            have s6: "context_step v5 (v5\<lparr>expected_offset := expected_offset v5 + bw2\<rparr>)"
              by (rule context_step_same_buffer) simp_all
            have s34: "context_step v2 v4" using s3 s4 Decode_samples by (auto intro: context_step_trans)
            have s: "context_step v v5"
              using s12 s34 s5 by (blast intro: context_step_trans)
            have ch4: "channels v4 = channels v"
              using s12 s34 by (simp add: context_step_def)
            have dv: "2 * channels v dvd bw2"
              using k1(1) k2(1) ch4 by simp
            from run2 more Some Inr Decode_samples w2
            have res: "(r = Bytes bw2 \<and> v' = v5\<lparr>expected_offset := expected_offset v5 + bw2\<rparr>
                        \<or> r = PCM_EOF \<and> v' = v5) \<and> cbuf' = cb2"
              by (auto simp: v4_def split: if_splits)
            have s': "context_step v v'"
              using res s s6 by (auto intro: context_step_trans)
            show ?thesis
              using res s' dv k2 k1 by auto
          qed
        qed
      qed
    qed
  qed
qed





section \<open>The serialiser writes the frames and nothing else\<close>

lemma list_update_pair:
  assumes fit: "off + 2 \<le> length xs"
  shows "xs[off := a, Suc off := b] = take off xs @ [a, b] @ drop (off + 2) xs"
proof (rule nth_equalityI)
  show "length (xs[off := a, Suc off := b]) = length (take off xs @ [a, b] @ drop (off + 2) xs)"
    using fit by simp
next
  fix i
  assume "i < length (xs[off := a, Suc off := b])"
  then have lt: "i < length xs" by simp
  consider "i < off" | "i = off" | "i = Suc off" | "off + 2 \<le> i" by linarith
  then show "xs[off := a, Suc off := b] ! i = (take off xs @ [a, b] @ drop (off + 2) xs) ! i"
  proof cases
    case 1
    then show ?thesis using lt by (simp add: nth_append)
  next
    case 2
    then show ?thesis using fit by (simp add: nth_append)
  next
    case 3
    then show ?thesis using fit by (simp add: nth_append)
  next
    case 4
    define j where "j = i - (off + 2)"
    have j: "i = off + 2 + j" using 4 by (simp add: j_def)
    show ?thesis using fit lt unfolding j by (simp add: nth_append)
  qed
qed

lemma drop_splice:
  assumes "m = a + length ys" "m \<le> length xs" "m \<le> n"
  shows "drop n (take a xs @ ys @ drop m xs) = drop n xs"
proof -
  define j where "j = n - m"
  have j: "n = j + m" using assms(3) by (simp add: j_def)
  have e: "drop m (take a xs @ ys @ drop m xs) = drop m xs" using assms(1,2) by simp
  have "drop (j + m) (take a xs @ ys @ drop m xs) = drop j (drop m (take a xs @ ys @ drop m xs))"
    by (rule drop_drop [symmetric])
  also have "\<dots> = drop j (drop m xs)" by (simp only: e)
  also have "\<dots> = drop (j + m) xs" by (rule drop_drop)
  finally show ?thesis unfolding j .
qed

lemma take_splice:
  assumes "m = a + length ys" "a \<le> length xs"
  shows "take m (take a xs @ ys @ zs) = take a xs @ ys"
  using assms by simp

lemma fold_frame_bytes:
  assumes step: "\<And>c off cbuf. f c (off, cbuf) = (off + 2, cbuf[off := lo c, Suc off := hi c])"
  shows "off + 2 * length cs \<le> length cbuf \<Longrightarrow>
         fold f cs (off, cbuf) =
           (off + 2 * length cs,
            take off cbuf @ concat (map (\<lambda>c. [lo c, hi c]) cs) @ drop (off + 2 * length cs) cbuf)"
proof (induction cs arbitrary: off cbuf)
  case Nil
  then show ?case by simp
next
  case (Cons c cs)
  let ?c1 = "cbuf[off := lo c, Suc off := hi c]"
  have fit: "off + 2 \<le> length cbuf" using Cons.prems by simp
  have c1: "?c1 = take off cbuf @ [lo c, hi c] @ drop (off + 2) cbuf"
    using fit by (rule list_update_pair)
  have len: "off + 2 + 2 * length cs \<le> length ?c1" using Cons.prems by simp
  have t: "take (off + 2) ?c1 = take off cbuf @ [lo c, hi c]"
    unfolding c1 using fit by (intro take_splice) simp_all
  have d: "drop (off + 2 + 2 * length cs) ?c1 = drop (off + 2 + 2 * length cs) cbuf"
    unfolding c1 using fit by (intro drop_splice) simp_all
  have "fold f (c # cs) (off, cbuf) = fold f cs (off + 2, ?c1)"
    by (simp add: step)
  also have "\<dots> = (off + 2 + 2 * length cs,
      take (off + 2) ?c1 @ concat (map (\<lambda>c. [lo c, hi c]) cs) @ drop (off + 2 + 2 * length cs) ?c1)"
    using len by (rule Cons.IH)
  finally have r: "fold f (c # cs) (off, cbuf) = (off + 2 + 2 * length cs,
      (take off cbuf @ [lo c, hi c]) @ concat (map (\<lambda>c. [lo c, hi c]) cs)
        @ drop (off + 2 + 2 * length cs) cbuf)"
    unfolding t d .
  have e: "off + 2 + 2 * length cs = off + 2 * length (c # cs)" by simp
  show ?case unfolding r e by simp
qed

lemma write_frame_bytes:
  assumes "off + 2 * n \<le> length cbuf"
  shows "write_frame samples s n (off, cbuf) =
           (off + 2 * n, take off cbuf @ pcm_frame samples s n @ drop (off + 2 * n) cbuf)"
proof -
  have "fold (\<lambda>c (off, cbuf).
             let pcm = PCM_FROM_VORBIS_SAMPLE (sample_at samples c s)
             in (off + VORBIS_BYTES_PER_SAMPLE,
                 cbuf[off + 0 := pcm_low_byte pcm, off + 1 := pcm_high_byte pcm]))
          [0 ..< n] (off, cbuf)
        = (off + 2 * length [0 ..< n],
            take off cbuf
            @ concat (map (\<lambda>c. [pcm_low_byte (PCM_FROM_VORBIS_SAMPLE (sample_at samples c s)),
                                pcm_high_byte (PCM_FROM_VORBIS_SAMPLE (sample_at samples c s))])
                          [0 ..< n])
            @ drop (off + 2 * length [0 ..< n]) cbuf)"
    using assms by (intro fold_frame_bytes) (simp_all add: Let_def VORBIS_BYTES_PER_SAMPLE_def)
  then show ?thesis by (simp add: write_frame_def pcm_frame_def)
qed

lemma length_pcm_frame: "length (pcm_frame samples s n) = 2 * n"
  by (simp add: pcm_frame_def length_concat o_def sum_list_triv)

lemma pcm_frames_Suc:
  "pcm_frames samples s (Suc k) n = pcm_frame samples s n @ pcm_frames samples (Suc s) k n"
  by (simp add: pcm_frames_def upt_conv_Cons del: upt_Suc)

lemma write_vorbis_samples_loop_bytes:
  "write_vorbis_samples_loop samples n len cnt s off cbuf idx = (off', cbuf', idx') \<Longrightarrow>
   len \<le> length cbuf \<Longrightarrow> off \<le> len \<Longrightarrow>
     cbuf' = take off cbuf @ pcm_frames samples s (idx' - idx) n @ drop off' cbuf"
proof (induction samples n len cnt s off cbuf idx rule: write_vorbis_samples_loop.induct)
  case (1 samples n len cnt s off cbuf idx)
  show ?case
  proof (cases "s < cnt \<and> \<not> off + VORBIS_BYTES_PER_SAMPLE * n > len")
    case False
    with "1.prems"(1) have "off' = off" "cbuf' = cbuf" "idx' = idx"
      by (auto split: if_splits)
    then show ?thesis by (simp add: pcm_frames_def)
  next
    case True
    then have s: "s < cnt" and nf: "\<not> off + VORBIS_BYTES_PER_SAMPLE * n > len" by simp_all
    have fit: "off + 2 * n \<le> len" using nf by (simp add: VORBIS_BYTES_PER_SAMPLE_def)
    let ?c1 = "take off cbuf @ pcm_frame samples s n @ drop (off + 2 * n) cbuf"
    have wf: "write_frame samples s n (off, cbuf) = (off + 2 * n, ?c1)"
      using fit "1.prems"(2) by (intro write_frame_bytes) simp
    have rec: "write_vorbis_samples_loop samples n len cnt (s + 1) (off + 2 * n) ?c1 (idx + 1)
                 = (off', cbuf', idx')"
      using "1.prems"(1) s nf wf by simp
    have l1: "length ?c1 = length cbuf"
      using fit "1.prems"(2) by (simp add: length_pcm_frame)
    from write_vorbis_samples_loop_frames [OF rec]
    obtain k where k: "off' = off + 2 * n + k * (2 * n)" "idx' = idx + 1 + k"
      by blast
    from "1.IH" [OF s nf wf [symmetric] rec] l1 "1.prems"(2) fit
    have ih: "cbuf' = take (off + 2 * n) ?c1 @ pcm_frames samples (s + 1) (idx' - (idx + 1)) n
                      @ drop off' ?c1"
      by simp
    have t: "take (off + 2 * n) ?c1 = take off cbuf @ pcm_frame samples s n"
      using fit "1.prems"(2) by (intro take_splice) (simp_all add: length_pcm_frame)
    have d: "drop off' ?c1 = drop off' cbuf"
      using fit "1.prems"(2) k(1) by (intro drop_splice) (simp_all add: length_pcm_frame)
    have i: "idx' - idx = Suc (idx' - (idx + 1))" using k(2) by simp
    show ?thesis
      unfolding ih t d i pcm_frames_Suc by simp
  qed
qed

lemma stereo_left: "s < 512 \<Longrightarrow> sample_at stereo_samples 0 s = (real s + 1) / 32768"
  by (simp add: sample_at_def stereo_samples_def)

lemma stereo_right: "s < 512 \<Longrightarrow> sample_at stereo_samples (Suc 0) s = - (real s + 2) / 32768"
  by (simp add: sample_at_def stereo_samples_def)

lemma upt_0_2: "[0 ..< 2] = [0, Suc 0]"
  by (simp add: upt_rec numeral_2_eq_2)

lemma upt_0_3: "[0 ..< 0 + 3] = [0, Suc 0, 2]"
  by (simp add: upt_rec numeral_3_eq_3)

lemma stereo_frame_0: "pcm_frame stereo_samples 0 2 = [1, 0, 254, 255]"
  by (simp add: pcm_frame_def upt_0_2 stereo_left stereo_right
      PCM_FROM_VORBIS_SAMPLE_is_cast short_of_float_def c_truncate_def
      pcm_low_byte_ucast pcm_high_byte_ucast)

lemma stereo_frame_1: "pcm_frame stereo_samples (Suc 0) 2 = [2, 0, 253, 255]"
  by (simp add: pcm_frame_def upt_0_2 stereo_left stereo_right
      PCM_FROM_VORBIS_SAMPLE_is_cast short_of_float_def c_truncate_def
      pcm_low_byte_ucast pcm_high_byte_ucast)

lemma stereo_frame_2: "pcm_frame stereo_samples 2 2 = [3, 0, 252, 255]"
  by (simp add: pcm_frame_def upt_0_2 stereo_left stereo_right
      PCM_FROM_VORBIS_SAMPLE_is_cast short_of_float_def c_truncate_def
      pcm_low_byte_ucast pcm_high_byte_ucast)

lemma first_three_stereo_frames:
  "pcm_frames stereo_samples 0 3 2 = [1, 0, 254, 255, 2, 0, 253, 255, 3, 0, 252, 255]"
  unfolding pcm_frames_def upt_0_3 by (simp add: stereo_frame_0 stereo_frame_1 stereo_frame_2)

section \<open>The streaming decoder: claims\<close>

text \<open>
  Claim C2. The context has pending samples, and the caller asks for exactly \<open>frames\<close>
  frames, no more than are pending, into a buffer that holds at least the length asked
  for. Then, whatever the decoder and the byte source are, the call returns the length
  asked for; the caller's buffer holds the bytes of these frames, in order, followed by
  what it held before past that length; the decoder state, the byte source, the
  compressed buffer and the heap are as before; and the pending samples are those left
  over, or none when all were used. The witness is the case of the specification: two
  channels, 512 decoded samples, 12 bytes asked for, 509 samples left.
\<close>

theorem C2_buffer_filled_from_pending:
  assumes out: "outputs vorbis = Some samples"
    and pending: "outputs_index vorbis < outputs_size vorbis"
    and ch: "0 < channels vorbis"
    and frames: "outputs_index vorbis + frames \<le> outputs_size vorbis"
    and len: "len = frames * (2 * channels vorbis)"
    and room: "len \<le> length cbuf"
  shows "\<exists>vorbis' cbuf'.
           read_vorbis_pcm api vorbis cbuf len w = Some (Inr (Bytes len, vorbis', cbuf', w))
           \<and> cbuf' = pcm_frames samples (outputs_index vorbis) frames (channels vorbis)
                      @ drop len cbuf
           \<and> decoder vorbis' = decoder vorbis \<and> vin vorbis' = vin vorbis
           \<and> buffer_mem vorbis' = buffer_mem vorbis
           \<and> buffer_offset vorbis' = buffer_offset vorbis
           \<and> expected_offset vorbis' = expected_offset vorbis + len
           \<and> (if outputs_index vorbis + frames < outputs_size vorbis
               then outputs vorbis' = Some samples
                    \<and> outputs_index vorbis' = outputs_index vorbis + frames
                    \<and> outputs_size vorbis' = outputs_size vorbis
               else outputs vorbis' = None \<and> outputs_index vorbis' = 0
                    \<and> outputs_size vorbis' = 0)"
proof -
  obtain off cb idx where l:
    "write_vorbis_samples_loop samples (channels vorbis) len (outputs_size vorbis)
       (outputs_index vorbis) 0 cbuf (outputs_index vorbis) = (off, cb, idx)"
    using prod_cases3 by blast
  from write_vorbis_samples_loop_frames [OF l]
  obtain k where k: "off = 0 + k * (2 * channels vorbis)" "idx = outputs_index vorbis + k"
    "k = min (outputs_size vorbis - outputs_index vorbis) ((len - 0) div (2 * channels vorbis))"
    using ch by auto
  have "len div (2 * channels vorbis) = frames" using len ch by simp
  then have kf: "k = frames" using k(3) frames by simp
  have off: "off = len" using k(1) kf len by simp
  have idx: "idx = outputs_index vorbis + frames" using k(2) kf by simp
  from write_vorbis_samples_loop_bytes [OF l room]
  have cb: "cb = pcm_frames samples (outputs_index vorbis) frames (channels vorbis) @ drop len cbuf"
    unfolding off idx by simp
  define v1 where "v1 = (if outputs_size vorbis \<le> idx
       then vorbis\<lparr>outputs_index := idx, outputs := None, outputs_size := 0, outputs_index := 0\<rparr>
       else vorbis\<lparr>outputs_index := idx\<rparr>)"
  have w1: "write_vorbis_samples vorbis 0 cbuf len = (v1, len, cb)"
    unfolding write_vorbis_samples_def out option.case l prod.case Let_def v1_def off
    by simp
  have run: "read_vorbis_pcm api vorbis cbuf len w =
     Some (Inr (Bytes len, v1\<lparr>expected_offset := expected_offset v1 + len\<rparr>, cb, w))"
    unfolding read_vorbis_pcm_def w1 prod.case by simp
  show ?thesis
    unfolding run using out idx frames cb
    by (intro exI[of _ "v1\<lparr>expected_offset := expected_offset v1 + len\<rparr>"] exI[of _ cb])
       (auto simp: v1_def)
qed

theorem C2_buffer_filled_from_pending_witness:
  "outputs stereo_512 = Some stereo_samples
   \<and> outputs_index stereo_512 < outputs_size stereo_512
   \<and> 0 < channels stereo_512
   \<and> outputs_index stereo_512 + 3 \<le> outputs_size stereo_512
   \<and> (12 :: nat) = 3 * (2 * channels stereo_512)
   \<and> 12 \<le> length fourteen_bytes
   \<and> (\<exists>vorbis'.
         read_vorbis_pcm never_ready_decoder stereo_512 fourteen_bytes 12 world0 =
           Some (Inr (Bytes 12, vorbis',
                      [1, 0, 254, 255, 2, 0, 253, 255, 3, 0, 252, 255, 0xAA, 0xAA], world0))
         \<and> decoder vorbis' = decoder stereo_512 \<and> vin vorbis' = vin stereo_512
         \<and> outputs_index vorbis' = 3
         \<and> outputs_size vorbis' - outputs_index vorbis' = 509)"
proof -
  have h: "outputs stereo_512 = Some stereo_samples"
    "outputs_index stereo_512 < outputs_size stereo_512"
    "0 < channels stereo_512"
    "outputs_index stereo_512 + 3 \<le> outputs_size stereo_512"
    "(12 :: nat) = 3 * (2 * channels stereo_512)"
    "12 \<le> length fourteen_bytes"
    by (simp_all add: stereo_512_def fourteen_bytes_def)
  have more: "outputs_index stereo_512 + 3 < outputs_size stereo_512"
    and idx: "outputs_index stereo_512 = 0" and sz: "outputs_size stereo_512 = 512"
    and ch: "channels stereo_512 = 2"
    by (simp_all add: stereo_512_def)
  have tail: "drop 12 fourteen_bytes = [0xAA, 0xAA]"
    by (simp add: fourteen_bytes_def)
  from C2_buffer_filled_from_pending [OF h, of never_ready_decoder world0]
  obtain vorbis' cbuf' where r:
    "read_vorbis_pcm never_ready_decoder stereo_512 fourteen_bytes 12 world0 =
       Some (Inr (Bytes 12, vorbis', cbuf', world0))"
    "cbuf' = pcm_frames stereo_samples (outputs_index stereo_512) 3 (channels stereo_512)
             @ drop 12 fourteen_bytes"
    "decoder vorbis' = decoder stereo_512" "vin vorbis' = vin stereo_512"
    "outputs_index vorbis' = outputs_index stereo_512 + 3"
    "outputs_size vorbis' = outputs_size stereo_512"
    unfolding if_P [OF more] by blast
  have c: "cbuf' = [1, 0, 254, 255, 2, 0, 253, 255, 3, 0, 252, 255, 0xAA, 0xAA]"
    unfolding r(2) idx ch first_three_stereo_frames tail by simp
  have "outputs_index vorbis' = 3" "outputs_size vorbis' - outputs_index vorbis' = 509"
    using r(5,6) idx sz by simp_all
  with r(1,3,4) c have "\<exists>vorbis'.
         read_vorbis_pcm never_ready_decoder stereo_512 fourteen_bytes 12 world0 =
           Some (Inr (Bytes 12, vorbis',
                      [1, 0, 254, 255, 2, 0, 253, 255, 3, 0, 252, 255, 0xAA, 0xAA], world0))
         \<and> decoder vorbis' = decoder stereo_512 \<and> vin vorbis' = vin stereo_512
         \<and> outputs_index vorbis' = 3
         \<and> outputs_size vorbis' - outputs_index vorbis' = 509"
    by blast
  with h show ?thesis by blast
qed

section \<open>Runs on concrete inputs\<close>

lemmas run_defs = rbtk_source_ogg_def open_vorbis_decoder_def malloc_def free_def
  rbtk_signal_error_def rbtk_signal_error_rt_def get_error_info_def
  sizeof_priv_rbtk_error_info_def
  rbtk_read_bytes_into_def rbtk_read_bytes_def store_bytes_def shift_unconsumed_to_front_def
  double_buffer_size_def rbtk_source_audio_def world0_def
  MIN_BUFSIZE_def MAX_BUFSIZE_def sizeof_rbtk_vorbis_audio_source_def sizeof_RBTK_AUDIO_SOURCE_def
  VORBIS_BITS_PER_SAMPLE_def Let_def
  read_vorbis_pcm_def write_vorbis_samples_def write_frame_def sample_at_def
  size_sub_def VORBIS_BYTES_PER_SAMPLE_def rbtk_read_pcm_def
  PCM_FROM_VORBIS_SAMPLE_is_cast short_of_float_def c_truncate_def pcm_low_byte_def pcm_high_byte_def

lemma replicate_2: "replicate 2 x = [x, x]"
  by (simp add: eval_nat_numeral)

lemma replicate_4: "replicate 4 x = [x, x, x, x]"
  by (simp add: eval_nat_numeral)

lemma replicate_6: "replicate 6 x = [x, x, x, x, x, x]"
  by (simp add: eval_nat_numeral)

lemma replicate_8: "replicate 8 x = [x, x, x, x, x, x, x, x]"
  by (simp add: eval_nat_numeral)

lemma first_read_of_four:
  "read_vorbis_pcm frame_decoder one_frame_opened (replicate 4 0) 4 world0 =
     Some (Inr (Bytes 4, one_sample_pending, [0, 64, 0, 192], world0))"
  by (simp add: run_defs read_vorbis_pcm_loop.simps frame_decoder_def one_frame_opened_def
      one_sample_pending_def replicate_4)

lemma open_one_frame:
  "rbtk_source_ogg frame_decoder one_frame_stream world0 =
     Some (Inr (Some one_frame_source, \<lparr>pending = [], limits = []\<rparr>,
                world0\<lparr>allocated := [99 \<mapsto> 4112, 100 \<mapsto> 88, 101 \<mapsto> 4096, 102 \<mapsto> 40],
                       next_block := 103\<rparr>))"
  by (simp add: run_defs open_vorbis_decoder_loop.simps frame_decoder_def one_frame_stream_def
      one_frame_source_def one_frame_opened_def)


text \<open>
  Claim C10. A \<^verbatim>\<open>read_pcm\<close> call on a Vorbis source that returns a byte count
  returns a multiple of the frame size, two bytes for each channel, and never more than
  the length asked for: frames are written whole or not at all.
\<close>

theorem C10_whole_frames:
  assumes "rbtk_read_pcm api src cbuf len w = Some (Inr (Bytes n, src', cbuf', w'))"
  shows "2 * channels (impl src) dvd n \<and> n \<le> len"
proof -
  from assms obtain vorbis' where
    "read_vorbis_pcm api (impl src) cbuf len w = Some (Inr (Bytes n, vorbis', cbuf', w'))"
    by (auto simp: rbtk_read_pcm_def split: option.splits sum.splits pcm_return.splits if_splits)
  from read_vorbis_pcm_Inr [OF this] show ?thesis by simp
qed

theorem C10_whole_frames_witness:
  "rbtk_read_pcm frame_decoder one_frame_source (replicate 4 0) 4 world0 =
     Some (Inr (Bytes 4, one_frame_source\<lparr>impl := one_sample_pending\<rparr>, [0, 64, 0, 192], world0))
   \<and> 2 * channels (impl one_frame_source) dvd (4 :: nat) \<and> (4 :: nat) \<le> 4"
proof -
  have run: "rbtk_read_pcm frame_decoder one_frame_source (replicate 4 0) 4 world0 =
     Some (Inr (Bytes 4, one_frame_source\<lparr>impl := one_sample_pending\<rparr>, [0, 64, 0, 192], world0))"
    by (simp add: rbtk_read_pcm_def one_frame_source_def first_read_of_four)
  from C10_whole_frames [OF run] run show ?thesis by simp
qed



section \<open>The streaming decoder: where code and specification part\<close>

text \<open>
  Claim C1, refuted by the code. The source \<open>one_frame_source\<close> has one frame of three
  samples left to decode, six bytes of PCM. Two reads of 8 bytes deliver all six bytes and
  then \<^verbatim>\<open>EOF\<close>. Two reads of 4 bytes deliver the first four bytes and then
  \<^verbatim>\<open>EOF\<close>: the second call writes the pending third sample into the caller's buffer,
  finds the byte source empty, and returns \<^verbatim>\<open>EOF\<close> without the count of what it wrote.
\<close>

theorem C1_small_reads_lose_the_tail:
  "pcm_of_reads frame_decoder one_frame_source [8, 8] world0 =
     Some (Inr ([0, 64, 0, 192, 0, 32], True))
   \<and> pcm_of_reads frame_decoder one_frame_source [4, 4] world0 =
     Some (Inr ([0, 64, 0, 192], True))"
  by (simp add: run_defs read_vorbis_pcm_loop.simps frame_decoder_def one_frame_source_def
      one_frame_opened_def replicate_4 replicate_8)

text \<open>
  Claim C4, refuted by the code. One sample is pending and the byte source is empty. A call
  for 4 bytes writes the two bytes of the sample (\<open>0x00 0x20\<close>) to the front of the
  caller's buffer, then reads nothing and decodes nothing, and returns \<^verbatim>\<open>EOF\<close>
  where the claim has it return 2; the sample is gone from the context.
\<close>

theorem C4_written_bytes_discarded_at_end:
  "read_vorbis_pcm frame_decoder one_sample_pending [0, 0, 0, 0] 4 world0 =
     Some (Inr (PCM_EOF, one_frame_drained, [0, 32, 0, 0], world0))"
  by (simp add: run_defs read_vorbis_pcm_loop.simps frame_decoder_def one_sample_pending_def
      one_frame_drained_def)

text \<open>
  Claim C5, refuted by the code. The decoder always asks for more data and the source holds
  two bytes, so every read after a doubling returns zero bytes. The test made on that
  number is \<^verbatim>\<open>read < 0\<close> on a \<^verbatim>\<open>size_t\<close>, which never holds: the open does
  not fail there, it doubles the buffer six times more (blocks 102 to 107) and fails only
  when the size, 262144, has passed the cap.
\<close>

theorem C5_open_keeps_doubling_after_empty_read:
  "rbtk_source_ogg never_ready_decoder one_frame_stream world0 =
     Some (Inr (None, \<lparr>pending = [], limits = []\<rparr>,
                world0\<lparr>allocated := [99 \<mapsto> 4112, 107 \<mapsto> 262144], next_block := 108,
                       signaled := True, last_error := RBTK_ERROR_IO\<rparr>))"
  by (simp add: run_defs open_vorbis_decoder_loop.simps never_ready_decoder_def
      one_frame_stream_def)

text \<open>
  Claim C9, refuted by the code. When the decoder rejects the input, and when the header
  does not resolve within the cap, \<^verbatim>\<open>rbtk_source_ogg\<close> returns \<^verbatim>\<open>NULL\<close> with an
  IO error signalled and has freed the context (block 100), but the compressed buffer
  that \<^verbatim>\<open>open_vorbis_decoder\<close> allocated is still live: block 101 of 4096 bytes in the
  first case, block 107 of 262144 bytes in the second. Block 99 is the thread's error
  record, which was there before the call.
\<close>

theorem C9_failed_open_leaks_buffer:
  "rbtk_source_ogg rejecting_decoder three_byte_stream world0 =
     Some (Inr (None, \<lparr>pending = [], limits = []\<rparr>,
                world0\<lparr>allocated := [99 \<mapsto> 4112, 101 \<mapsto> 4096], next_block := 102,
                       signaled := True, last_error := RBTK_ERROR_IO\<rparr>))
   \<and> rbtk_source_ogg never_ready_decoder three_byte_stream world0 =
     Some (Inr (None, \<lparr>pending = [], limits = []\<rparr>,
                world0\<lparr>allocated := [99 \<mapsto> 4112, 107 \<mapsto> 262144], next_block := 108,
                       signaled := True, last_error := RBTK_ERROR_IO\<rparr>))"
  by (simp add: run_defs open_vorbis_decoder_loop.simps rejecting_decoder_def
      never_ready_decoder_def three_byte_stream_def)




end
